theory Spec2Isabelle
  imports Main
begin

section \<open>The growable bitmap\<close>

text \<open>
  \<^verbatim>\<open>usedChunkInfo_\<close> and \<^verbatim>\<open>validChunkInfo_\<close> are \<^verbatim>\<open>BitArray\<close> objects. The class is
  declared outside \<^verbatim>\<open>checkpoint_file.cpp\<close>, so its operations are taken from the
  specification's section 4.1. A bitmap is the list of its bits, position 0 first.
\<close>

type_synonym BitArray = "bool list"

definition BitArray_new :: "nat \<Rightarrow> BitArray" where
  \<comment> \<open>Modelled from the spec: the constructor \<^verbatim>\<open>BitArray(capacity)\<close> is missing from the
      sources; a capacity is room reserved, the new bitmap holds no bit.\<close>
  "BitArray_new capacity = []"

definition BitArray_get :: "BitArray \<Rightarrow> nat \<Rightarrow> bool" where
  \<comment> \<open>Modelled from the spec: \<^verbatim>\<open>get(i) -> bool\<close> is missing from the sources. The spec
      does not say what a read at \<open>i \<ge> length\<close> gives; such a position holds no bit and
      reads as false, as the zero-filled bits of a growing \<^verbatim>\<open>set\<close> do.\<close>
  "BitArray_get a i = (if i < length a then a ! i else False)"

definition BitArray_set :: "BitArray \<Rightarrow> nat \<Rightarrow> bool \<Rightarrow> BitArray" where
  \<comment> \<open>Modelled from the spec: \<^verbatim>\<open>set(i, v)\<close> is missing from the sources; on
      \<open>i \<ge> length\<close> it grows the vector, zero-filling intermediate bits.\<close>
  "BitArray_set a i v =
     (if i < length a then a[i := v] else a @ replicate (i - length a) False @ [v])"

definition BitArray_append :: "BitArray \<Rightarrow> bool \<Rightarrow> nat \<times> BitArray" where
  \<comment> \<open>Modelled from the spec: \<^verbatim>\<open>append(v)\<close> is missing from the sources; it returns the
      index at which the bit was stored.\<close>
  "BitArray_append a v = (length a, a @ [v])"

definition BitArray_reserve :: "BitArray \<Rightarrow> nat \<Rightarrow> BitArray" where
  \<comment> \<open>Modelled from the spec: \<^verbatim>\<open>reserve(n)\<close> is missing from the sources; it sets room
      aside and changes neither a bit nor the length.\<close>
  "BitArray_reserve a n = a"

definition BitArray_clear :: "BitArray \<Rightarrow> BitArray" where
  \<comment> \<open>Modelled from the spec: \<^verbatim>\<open>clear\<close> is missing from the sources; it drops the
      length to zero.\<close>
  "BitArray_clear a = []"

definition BitArray_reset :: "BitArray \<Rightarrow> BitArray" where
  \<comment> \<open>Modelled from the spec: \<^verbatim>\<open>reset\<close> is missing from the sources; it sets all
      currently-held bits to false while preserving the length.\<close>
  "BitArray_reset a = replicate (length a) False"

definition countFree :: "BitArray \<Rightarrow> nat" where
  \<comment> \<open>The number of false bits of a bitmap; the code keeps no such function, the
      invariant on \<^verbatim>\<open>freeUseBitNum_\<close> is stated with it.\<close>
  "countFree a = length (filter (\<lambda>b. \<not> b) a)"

section \<open>The checkpoint file object\<close>

text \<open>
  The members of \<^verbatim>\<open>CheckpointFile\<close> that the constructor initialises, under their names
  without the trailing underscore. The unsigned 64-bit members are natural numbers. The
  decrement of \<^verbatim>\<open>freeUseBitNum_\<close> at 0 wraps to \<open>2 ^ 64 - 1\<close> and is written out in
  \<open>setUsedBlockInfo\<close>, and so is the unsigned arithmetic on the caller's arguments in
  the read and write paths. The increments are not wrapped: \<^verbatim>\<open>++freeUseBitNum_\<close> wraps
  only from \<open>2 ^ 64 - 1\<close>, a value the member takes either with a used bitmap of
  \<open>2 ^ 64\<close> bits or after the decrement at 0, which the assertion
  \<^verbatim>\<open>assert(freeUseBitNum_ != 0)\<close> excludes; there the model gives \<open>2 ^ 64\<close> where the
  code gives 0. \<open>fileList\<close> holds, for every split slot, whether a file object is
  attached (the pointer is not \<^verbatim>\<open>NULL\<close>).
\<close>

record CheckpointFile =
  BLOCK_EXP_SIZE :: nat
  usedChunkInfo :: BitArray
  validChunkInfo :: BitArray
  blockNum :: nat
  freeUseBitNum :: nat
  freeBlockSearchCursor :: nat
  pgId :: nat
  dir :: string
  splitMode :: bool
  splitCount :: nat
  stripeSize :: nat
  readBlockCount :: nat
  writeBlockCount :: nat
  readRetryCount :: nat
  writeRetryCount :: nat
  fileList :: "bool list"
  dirList :: "string list"
  fileNameList :: "string list"
  blockCountList :: "nat list"

definition BLOCK_SIZE :: "CheckpointFile \<Rightarrow> nat" where
  "BLOCK_SIZE s = 2 ^ BLOCK_EXP_SIZE s"

section \<open>The allocator\<close>

definition setUsedBlockInfo :: "nat \<Rightarrow> bool \<Rightarrow> CheckpointFile \<Rightarrow> CheckpointFile" where
  "setUsedBlockInfo blockNo flag s =
     (let oldFlag = BitArray_get (usedChunkInfo s) blockNo;
          s1 = s\<lparr>usedChunkInfo := BitArray_set (usedChunkInfo s) blockNo flag\<rparr>
      in if flag \<and> oldFlag \<noteq> flag then
           s1\<lparr>freeUseBitNum :=
                (if freeUseBitNum s1 = 0 then 2 ^ 64 - 1 else freeUseBitNum s1 - 1)\<rparr>
         else if \<not> flag \<and> oldFlag \<noteq> flag then
           s1\<lparr>freeUseBitNum := freeUseBitNum s1 + 1\<rparr>
         else s1)"

definition getUsedBlockInfo :: "nat \<Rightarrow> CheckpointFile \<Rightarrow> bool" where
  "getUsedBlockInfo blockNo s = BitArray_get (usedChunkInfo s) blockNo"

definition freeBlock :: "nat \<Rightarrow> CheckpointFile \<Rightarrow> CheckpointFile" where
  \<comment> \<open>The two assertions of \<^verbatim>\<open>freeBlock\<close> are the caller's duty and compile to nothing
      in a release build; the theorems state them as hypotheses.\<close>
  "freeBlock blockNo s = setUsedBlockInfo blockNo False s"

text \<open>
  Both \<^verbatim>\<open>for\<close> loops of \<^verbatim>\<open>allocateBlock\<close> have the same body and differ in where
  \<^verbatim>\<open>pos\<close> starts and ends. \<open>searchFree\<close> is that loop: it returns \<^verbatim>\<open>allocatePos\<close>
  (\<open>None\<close> for \<open>-1\<close>), and \<^verbatim>\<open>pos\<close> and \<^verbatim>\<open>count\<close> as the loop leaves them.
  \<^verbatim>\<open>ALLOCATE_BLOCK_SEARCH_LIMIT\<close> is a constant of the missing header and is the
  parameter \<open>lim\<close>.
\<close>

function searchFree :: "nat \<Rightarrow> BitArray \<Rightarrow> nat \<Rightarrow> nat \<Rightarrow> nat \<Rightarrow> nat option \<times> nat \<times> nat" where
  "searchFree lim used bound pos count =
     (if pos < bound then
        (if \<not> BitArray_get used pos then (Some pos, pos, count)
         else if count > lim then (None, pos, count)
         else searchFree lim used bound (pos + 1) (count + 1))
      else (None, pos, count))"
  by pat_completeness auto
termination
  by (relation "measure (\<lambda>(lim, used, bound, pos, count). bound - pos)") auto

declare searchFree.simps [simp del]

definition scanFree :: "nat \<Rightarrow> CheckpointFile \<Rightarrow> nat option \<times> nat \<times> nat" where
  \<comment> \<open>The body of \<^verbatim>\<open>if (freeUseBitNum_ > 0)\<close> up to the update of the cursor: the scan
      from the cursor to the end and, when that found nothing and stayed within the
      limit, the scan from 0 to the cursor.\<close>
  "scanFree lim s =
     (let startPos = freeBlockSearchCursor s;
          usedChunkInfoSize = length (usedChunkInfo s);
          r1 = searchFree lim (usedChunkInfo s) usedChunkInfoSize startPos 0
      in case r1 of (allocatePos, pos, count) \<Rightarrow>
           if allocatePos = None \<and> count \<le> lim
           then searchFree lim (usedChunkInfo s) startPos 0 count
           else r1)"

definition allocateBlock :: "nat \<Rightarrow> CheckpointFile \<Rightarrow> nat \<times> CheckpointFile" where
  "allocateBlock lim s =
     (let usedChunkInfoSize = length (usedChunkInfo s);
          (allocatePos, s1) =
            (if freeUseBitNum s > 0 then
               (case scanFree lim s of (found, pos, count) \<Rightarrow>
                  (found,
                   s\<lparr>freeBlockSearchCursor :=
                        (if pos + 1 \<ge> usedChunkInfoSize then 0 else pos + 1)\<rparr>))
             else (None, s))
      in case allocatePos of
           None \<Rightarrow>
             (case BitArray_append (usedChunkInfo s1) True of (p, used') \<Rightarrow>
                (p, setUsedBlockInfo p True
                      (s1\<lparr>usedChunkInfo := used',
                          validChunkInfo := BitArray_set (validChunkInfo s1) p False\<rparr>)))
         | Some p \<Rightarrow> (p, setUsedBlockInfo p True s1))"

text \<open>Call sequences of the allocator: \<^verbatim>\<open>allocateBlock()\<close> and \<^verbatim>\<open>freeBlock(blockNo)\<close>.\<close>

datatype call = Allocate | Free nat

fun exec :: "nat \<Rightarrow> call \<Rightarrow> CheckpointFile \<Rightarrow> CheckpointFile" where
  "exec lim Allocate s = snd (allocateBlock lim s)"
| "exec lim (Free b) s = freeBlock b s"

fun run :: "nat \<Rightarrow> call list \<Rightarrow> CheckpointFile \<Rightarrow> CheckpointFile" where
  "run lim [] s = s"
| "run lim (c # cs) s = run lim cs (exec lim c s)"

fun freesAllocated :: "nat \<Rightarrow> call list \<Rightarrow> CheckpointFile \<Rightarrow> bool" where
  \<comment> \<open>Every \<open>Free b\<close> of the sequence meets a block that is allocated at that moment
      (the assertions of \<^verbatim>\<open>freeBlock\<close>).\<close>
  "freesAllocated lim [] s = True"
| "freesAllocated lim (Allocate # cs) s = freesAllocated lim cs (exec lim Allocate s)"
| "freesAllocated lim (Free b # cs) s =
     (b < length (usedChunkInfo s) \<and> usedChunkInfo s ! b \<and>
      freesAllocated lim cs (exec lim (Free b) s))"


definition allocInv :: "CheckpointFile \<Rightarrow> bool" where
  \<comment> \<open>The allocator's invariant: \<^verbatim>\<open>freeUseBitNum_\<close> counts the false bits of the used
      bitmap and the search cursor lies within the bitmap.\<close>
  "allocInv s =
     (freeUseBitNum s = countFree (usedChunkInfo s) \<and>
      freeBlockSearchCursor s \<le> length (usedChunkInfo s))"

section \<open>The valid-set tracker and the initialisers\<close>

definition setValidBlockInfo :: "nat \<Rightarrow> bool \<Rightarrow> CheckpointFile \<Rightarrow> CheckpointFile" where
  "setValidBlockInfo blockNo flag s =
     s\<lparr>validChunkInfo := BitArray_set (validChunkInfo s) blockNo flag\<rparr>"

definition getValidBlockInfo :: "nat \<Rightarrow> CheckpointFile \<Rightarrow> bool" where
  "getValidBlockInfo blockNo s = BitArray_get (validChunkInfo s) blockNo"

definition initializeUsedBlockInfo :: "CheckpointFile \<Rightarrow> CheckpointFile" where
  \<comment> \<open>\<^verbatim>\<open>clear\<close>, \<^verbatim>\<open>reserve\<close>, then \<^verbatim>\<open>blockNum_\<close> times \<^verbatim>\<open>append(false)\<close>.\<close>
  "initializeUsedBlockInfo s =
     s\<lparr>usedChunkInfo :=
          ((\<lambda>a. snd (BitArray_append a False)) ^^ blockNum s)
            (BitArray_reserve (BitArray_clear (usedChunkInfo s)) (blockNum s)),
        freeUseBitNum := blockNum s\<rparr>"

definition initializeValidBlockInfo :: "CheckpointFile \<Rightarrow> CheckpointFile" where
  "initializeValidBlockInfo s =
     s\<lparr>validChunkInfo :=
          ((\<lambda>a. snd (BitArray_append a False)) ^^ blockNum s)
            (BitArray_reserve (BitArray_clear (validChunkInfo s)) (blockNum s))\<rparr>"

section \<open>The file set\<close>

text \<open>
  The operating system is the environment of a call. \<open>FileSystem\<close> is what a call sees
  of it: which paths exist, which are directories, the size of a file
  (\<^verbatim>\<open>status.getSize()\<close>), and \<open>openFails\<close>, the files on which \<^verbatim>\<open>NamedFile::open\<close>,
  \<^verbatim>\<open>lock\<close> or \<^verbatim>\<open>getStatus\<close> throws. The transfer macros \<^verbatim>\<open>GS_FILE_READ_ALL\<close> and
  \<^verbatim>\<open>GS_FILE_WRITE_ALL\<close> are not in the sources; a call takes their outcome, an error or
  the retry count they report, as \<open>io_outcome\<close>. A call that throws returns \<open>Inl\<close> of
  the error; the object is not used after it.
\<close>

datatype error =
    CF_INVALID_DIRECTORY
  | CM_IO_ERROR
  | CM_FILE_NOT_FOUND
  | CF_READ_CHUNK_FAILED
  | PLATFORM_ERROR
  | NULL_FILE

record FileSystem =
  exists :: "string \<Rightarrow> bool"
  isDirectory :: "string \<Rightarrow> bool"
  getSize :: "string \<Rightarrow> nat"
  openFails :: "string \<Rightarrow> bool"

datatype io_outcome = IoThrows | IoDone nat

text \<open>
  A hole-punch request as the file layer receives it: the slot of the file, the offset
  within that file and the length (\<^verbatim>\<open>preAllocate\<close> with
  \<^verbatim>\<open>FALLOC_FL_KEEP_SIZE | FALLOC_FL_PUNCH_HOLE\<close>). The model is the build for a system
  that has the call; elsewhere both functions are empty. \<open>fails\<close> tells which requests
  the system refuses with an exception.
\<close>

record punch =
  punchFileNth :: nat
  punchOffset :: nat
  punchLength :: nat

text \<open>
  An input string stream, as the name parser uses it: the characters, the read position
  and the fail bit.
\<close>

record istream =
  content :: string
  gpos :: nat
  failbit :: bool

definition gsCpFileBaseName :: string where
  "gsCpFileBaseName = ''gs_cp_''"

definition gsCpFileExtension :: string where
  "gsCpFileExtension = ''.dat''"

definition gsCpFileSeparator :: string where
  "gsCpFileSeparator = ''_''"

text \<open>\<^verbatim>\<open>operator<<\<close> on an unsigned number: its decimal digits, no padding.\<close>

definition digitChar :: "nat \<Rightarrow> char" where
  "digitChar d = ''0123456789'' ! (d mod 10)"

function showNat :: "nat \<Rightarrow> string" where
  "showNat n = (if n < 10 then [digitChar n] else showNat (n div 10) @ [digitChar (n mod 10)])"
  by pat_completeness auto
termination
  by (relation "measure id") auto

declare showNat.simps [simp del]

definition attached :: "CheckpointFile \<Rightarrow> nat \<Rightarrow> bool" where
  \<comment> \<open>\<^verbatim>\<open>fileList_[i]\<close> is not \<^verbatim>\<open>NULL\<close>.\<close>
  "attached s i = (i < length (fileList s) \<and> fileList s ! i)"

definition initialMembers :: "nat \<Rightarrow> string \<Rightarrow> nat \<Rightarrow> nat \<Rightarrow> nat \<Rightarrow> CheckpointFile" where
  \<comment> \<open>The constructor's member initialisers and the four \<^verbatim>\<open>assign\<close> calls that open
      its body.\<close>
  "initialMembers chunkExpSize dirName pg splitCnt stripe =
     (let n = (if splitCnt \<noteq> 0 then splitCnt else 1) in
      \<lparr>BLOCK_EXP_SIZE = chunkExpSize,
       usedChunkInfo = BitArray_new 10240,
       validChunkInfo = BitArray_new 10240,
       blockNum = 0,
       freeUseBitNum = 0,
       freeBlockSearchCursor = 0,
       pgId = pg,
       dir = dirName,
       splitMode = (splitCnt > 0),
       splitCount = n,
       stripeSize = stripe,
       readBlockCount = 0,
       writeBlockCount = 0,
       readRetryCount = 0,
       writeRetryCount = 0,
       fileList = replicate n False,
       dirList = replicate n [],
       fileNameList = replicate n [],
       blockCountList = replicate n 0\<rparr>)"

definition newCheckpointFile ::
  "nat \<Rightarrow> nat \<Rightarrow> FileSystem \<Rightarrow> nat \<Rightarrow> string \<Rightarrow> nat \<Rightarrow> nat \<Rightarrow> nat \<Rightarrow> string list
     \<Rightarrow> error + CheckpointFile" where
  \<comment> \<open>The constructor. \<^verbatim>\<open>FILE_SPLIT_COUNT_LIMIT\<close> and \<^verbatim>\<open>FILE_SPLIT_STRIPE_SIZE_LIMIT\<close> are
      constants of the missing header and are the first two parameters.\<close>
  "newCheckpointFile FILE_SPLIT_COUNT_LIMIT FILE_SPLIT_STRIPE_SIZE_LIMIT fs
       chunkExpSize dirName pg splitCnt stripe configDirList =
     (let s = initialMembers chunkExpSize dirName pg splitCnt stripe;
          configDirCount = length configDirList
      in if splitMode s then
           (if configDirCount > splitCount s then Inl CF_INVALID_DIRECTORY
            else if configDirCount = 0 then Inl CF_INVALID_DIRECTORY
            else if splitCount s > FILE_SPLIT_COUNT_LIMIT then Inl CF_INVALID_DIRECTORY
            else if stripeSize s > FILE_SPLIT_STRIPE_SIZE_LIMIT then Inl CF_INVALID_DIRECTORY
            else
              (let dirs = map (\<lambda>i. configDirList ! (i mod configDirCount)) [0..<splitCount s]
               in if list_ex (\<lambda>d. exists fs d \<and> \<not> isDirectory fs d) dirs
                  then Inl CM_IO_ERROR
                  else Inr (s\<lparr>dirList := dirs\<rparr>)))
         else if configDirCount \<noteq> 0 then Inl CF_INVALID_DIRECTORY
         else Inr (s\<lparr>dirList := (dirList s)[0 := dirName]\<rparr>))"

definition checkDirectory :: "FileSystem \<Rightarrow> string \<Rightarrow> bool" where
  \<comment> \<open>The directory test of \<^verbatim>\<open>open\<close>: the path exists and is a directory; otherwise
      \<^verbatim>\<open>open\<close> throws \<^verbatim>\<open>GS_ERROR_CF_INVALID_DIRECTORY\<close>.\<close>
  "checkDirectory fs d = (exists fs d \<and> isDirectory fs d)"

definition splitFileName :: "CheckpointFile \<Rightarrow> nat \<Rightarrow> string" where
  \<comment> \<open>The name \<^verbatim>\<open>open\<close> builds for slot \<open>i\<close>: in split mode the slot's directory and the
      slot number, otherwise the base directory (when it is not empty) and the literal 1.\<close>
  "splitFileName s i =
     (if splitMode s then
        dirList s ! i @ ''/'' @ gsCpFileBaseName @ showNat (pgId s) @ gsCpFileSeparator
          @ showNat i @ gsCpFileExtension
      else
        (if dir s \<noteq> [] then dir s @ ''/'' else []) @ gsCpFileBaseName @ showNat (pgId s)
          @ gsCpFileSeparator @ showNat 1 @ gsCpFileExtension)"

fun openLoop ::
  "FileSystem \<Rightarrow> bool \<Rightarrow> bool \<Rightarrow> nat list \<Rightarrow> CheckpointFile \<Rightarrow> nat
     \<Rightarrow> error + (CheckpointFile \<times> nat)" where
  \<comment> \<open>The \<^verbatim>\<open>for\<close> loop of \<^verbatim>\<open>open\<close> over the split slots still to visit; the last
      argument is \<^verbatim>\<open>totalBlockCount\<close>.\<close>
  "openLoop fs checkOnly createMode [] s totalBlockCount = Inr (s, totalBlockCount)"
| "openLoop fs checkOnly createMode (i # rest) s totalBlockCount =
     (if splitMode s \<and> \<not> checkDirectory fs (dirList s ! i) then Inl CF_INVALID_DIRECTORY
      else if \<not> splitMode s \<and> dir s \<noteq> [] \<and> \<not> checkDirectory fs (dir s)
        then Inl CF_INVALID_DIRECTORY
      else
        (let name = splitFileName s i;
             s1 = s\<lparr>fileNameList := (fileNameList s)[i := name]\<rparr>
         in if exists fs name then
              (if openFails fs name then Inl PLATFORM_ERROR
               else
                 (let chunkNum = (getSize fs name + BLOCK_SIZE s1 - 1) div BLOCK_SIZE s1
                  in openLoop fs checkOnly createMode rest
                       (s1\<lparr>fileList := (fileList s1)[i := True],
                           blockCountList := (blockCountList s1)[i := chunkNum]\<rparr>)
                       (totalBlockCount + chunkNum)))
            else if checkOnly then Inl CM_FILE_NOT_FOUND
            else if \<not> createMode then Inl CM_FILE_NOT_FOUND
            else if openFails fs name then Inl PLATFORM_ERROR
            else
              openLoop fs checkOnly createMode rest
                (s1\<lparr>fileList := (fileList s1)[i := True],
                    blockCountList := (blockCountList s1)[i := 0]\<rparr>)
                totalBlockCount))"

definition open_file ::
  "FileSystem \<Rightarrow> bool \<Rightarrow> bool \<Rightarrow> CheckpointFile \<Rightarrow> error + (bool \<times> CheckpointFile)" where
  \<comment> \<open>\<^verbatim>\<open>CheckpointFile::open\<close>; the result is the returned flag and the object.\<close>
  "open_file fs checkOnly createMode s =
     (case openLoop fs checkOnly createMode [0..<splitCount s] s 0 of
        Inl e \<Rightarrow> Inl e
      | Inr (s1, totalBlockCount) \<Rightarrow>
          (let used' = BitArray_set (BitArray_reserve (usedChunkInfo s1) (totalBlockCount + 1))
                         (totalBlockCount + 1) False;
               valid' = BitArray_set (BitArray_reserve (validChunkInfo s1) (totalBlockCount + 1))
                         (totalBlockCount + 1) False
           in Inr (totalBlockCount = 0,
                   s1\<lparr>blockNum := totalBlockCount,
                      usedChunkInfo := used',
                      validChunkInfo := valid',
                      freeUseBitNum := length used',
                      freeBlockSearchCursor := 0\<rparr>)))"

definition truncateWith ::
  "(BitArray \<Rightarrow> BitArray) \<Rightarrow> FileSystem \<Rightarrow> CheckpointFile \<Rightarrow> error + CheckpointFile" where
  \<comment> \<open>\<^verbatim>\<open>CheckpointFile::truncate\<close>: every slot gets a new file object, opened with
      create and truncate; an exception of any of them ends the call. The call ends with
      \<^verbatim>\<open>usedChunkInfo_.reset()\<close> and \<^verbatim>\<open>validChunkInfo_.reset()\<close>; \<^verbatim>\<open>BitArray::reset\<close> is
      not among the sources and is the parameter \<open>reset\<close>.\<close>
  "truncateWith reset fs s =
     (if list_ex (\<lambda>i. openFails fs (fileNameList s ! i)) [0..<splitCount s]
      then Inl PLATFORM_ERROR
      else
        Inr (s\<lparr>fileList := fold (\<lambda>i l. l[i := True]) [0..<splitCount s] (fileList s),
               blockCountList := fold (\<lambda>i l. l[i := 0]) [0..<splitCount s] (blockCountList s),
               blockNum := 0,
               freeUseBitNum := 0,
               freeBlockSearchCursor := 0,
               usedChunkInfo := reset (usedChunkInfo s),
               validChunkInfo := reset (validChunkInfo s)\<rparr>))"

definition truncate :: "FileSystem \<Rightarrow> CheckpointFile \<Rightarrow> error + CheckpointFile" where
  \<comment> \<open>\<^verbatim>\<open>CheckpointFile::truncate\<close> with the \<^verbatim>\<open>reset\<close> that section 4.1 of the
      specification describes.\<close>
  "truncate fs s = truncateWith BitArray_reset fs s"

section \<open>The block address mapper\<close>

definition calcFileNth :: "CheckpointFile \<Rightarrow> nat \<Rightarrow> nat" where
  \<comment> \<open>Modelled from the spec: \<^verbatim>\<open>calcFileNth\<close> is an inline function of the missing
      header. Section 3: for the block \<open>b\<close> of the byte offset, the file index is
      \<open>(b / T) mod S\<close>, and 0 when \<open>S = 1\<close>.\<close>
  "calcFileNth s offset =
     (if splitCount s = 1 then 0
      else ((offset div BLOCK_SIZE s) div stripeSize s) mod splitCount s)"

definition calcFileOffset :: "CheckpointFile \<Rightarrow> nat \<Rightarrow> nat" where
  \<comment> \<open>Modelled from the spec: \<^verbatim>\<open>calcFileOffset\<close> is an inline function of the missing
      header. Section 3: the file-local block index is \<open>((b / T) / S) * T + (b mod T)\<close>,
      the file-local byte offset is that index times the block size, and the offset itself
      when \<open>S = 1\<close>. The bytes of an offset within its block are carried over.\<close>
  "calcFileOffset s offset =
     (if splitCount s = 1 then offset
      else
        (let b = offset div BLOCK_SIZE s
         in (((b div stripeSize s) div splitCount s) * stripeSize s + b mod stripeSize s)
              * BLOCK_SIZE s + offset mod BLOCK_SIZE s))"

section \<open>The I/O engine\<close>

definition writeBlock ::
  "io_outcome \<Rightarrow> nat \<Rightarrow> nat \<Rightarrow> CheckpointFile \<Rightarrow> error + (nat \<times> CheckpointFile)" where
  \<comment> \<open>\<^verbatim>\<open>writeBlock(buffer, size, blockNo)\<close>; \<^verbatim>\<open>size\<close> is a \<^verbatim>\<open>uint32_t\<close>, so
      \<^verbatim>\<open>size << BLOCK_EXP_SIZE_\<close> is taken modulo \<open>2 ^ 32\<close>, and \<^verbatim>\<open>size + blockNo\<close> is
      unsigned 64-bit.\<close>
  "writeBlock io sz blockNo s =
     (let offset = (blockNo * BLOCK_SIZE s) mod 2 ^ 64;
          fileNth = calcFileNth s offset
      in case io of
           IoThrows \<Rightarrow> Inl PLATFORM_ERROR
         | IoDone retryCount \<Rightarrow>
             (let writtenSize = (sz * 2 ^ BLOCK_EXP_SIZE s) mod 2 ^ 32;
                  s1 = s\<lparr>fileList := (fileList s)[fileNth := True],
                         writeRetryCount := writeRetryCount s + retryCount\<rparr>;
                  s2 = (if blockNum s1 < (sz + blockNo) mod 2 ^ 64
                        then s1\<lparr>blockNum := (sz + blockNo) mod 2 ^ 64\<rparr> else s1);
                  writeBlockNum = writtenSize div 2 ^ BLOCK_EXP_SIZE s
              in Inr (sz, s2\<lparr>writeBlockCount := writeBlockCount s2 + writeBlockNum\<rparr>)))"

definition writePartialBlock ::
  "io_outcome \<Rightarrow> nat \<Rightarrow> nat \<Rightarrow> CheckpointFile \<Rightarrow> error + (nat \<times> CheckpointFile)" where
  "writePartialBlock io sz offset s =
     (let fileNth = calcFileNth s offset
      in case io of
           IoThrows \<Rightarrow> Inl PLATFORM_ERROR
         | IoDone retryCount \<Rightarrow>
             (let s1 = s\<lparr>fileList := (fileList s)[fileNth := True],
                         writeRetryCount := writeRetryCount s + retryCount\<rparr>;
                  s2 = (if (blockNum s1 * 2 ^ BLOCK_EXP_SIZE s) mod 2 ^ 64
                             < (sz + offset) mod 2 ^ 64
                        then s1\<lparr>blockNum :=
                                  ((sz + offset + BLOCK_SIZE s - 1) mod 2 ^ 64)
                                    div 2 ^ BLOCK_EXP_SIZE s\<rparr>
                        else s1)
              in Inr (sz, s2)))"

definition readBlock ::
  "FileSystem \<Rightarrow> io_outcome \<Rightarrow> nat \<Rightarrow> nat \<Rightarrow> CheckpointFile
     \<Rightarrow> error + (nat \<times> CheckpointFile)" where
  \<comment> \<open>\<^verbatim>\<open>readBlock(buffer, size, blockNo)\<close>. The guard compares unsigned 64-bit values:
      \<^verbatim>\<open>size + blockNo - 1\<close> is taken modulo \<open>2 ^ 64\<close>. The thrown
      \<^verbatim>\<open>GS_ERROR_CF_READ_CHUNK_FAILED\<close> carries the message "invalid parameter".\<close>
  "readBlock fs io sz blockNo s =
     (if blockNum s < (sz + blockNo + 2 ^ 64 - 1) mod 2 ^ 64 \<or> sz = 0
      then Inl CF_READ_CHUNK_FAILED
      else
        (let offset = (blockNo * BLOCK_SIZE s) mod 2 ^ 64;
             fileNth = calcFileNth s offset
         in if \<not> attached s fileNth \<and> \<not> exists fs (fileNameList s ! fileNth)
            then Inr (0, s)
            else
              (case io of
                 IoThrows \<Rightarrow> Inl PLATFORM_ERROR
               | IoDone retryCount \<Rightarrow>
                   (let readSize = (sz * 2 ^ BLOCK_EXP_SIZE s) mod 2 ^ 32;
                        readBlockNum = readSize div 2 ^ BLOCK_EXP_SIZE s
                    in Inr (readBlockNum,
                            s\<lparr>fileList := (fileList s)[fileNth := True],
                              readRetryCount := readRetryCount s + retryCount,
                              readBlockCount := readBlockCount s + readBlockNum\<rparr>)))))"

definition punchRequest :: "CheckpointFile \<Rightarrow> nat \<Rightarrow> nat \<Rightarrow> punch" where
  \<comment> \<open>The request for \<open>sz\<close> bytes at the logical byte offset \<open>offset\<close>.\<close>
  "punchRequest s sz offset =
     \<lparr>punchFileNth = calcFileNth s offset,
      punchOffset = calcFileOffset s offset,
      punchLength = sz\<rparr>"

definition punchHoleBlock ::
  "(punch \<Rightarrow> bool) \<Rightarrow> nat \<Rightarrow> nat \<Rightarrow> CheckpointFile \<Rightarrow> punch list \<times> error option" where
  \<comment> \<open>The requests issued and the exception that ended the call, if any.\<close>
  "punchHoleBlock fails sz offset s =
     (if attached s (calcFileNth s offset) \<and> 0 < sz then
        ([punchRequest s sz offset],
         if fails (punchRequest s sz offset) then Some PLATFORM_ERROR else None)
      else ([], None))"

fun punchUnused ::
  "(punch \<Rightarrow> bool) \<Rightarrow> CheckpointFile \<Rightarrow> nat list \<Rightarrow> punch list \<times> error option" where
  \<comment> \<open>The loop of \<^verbatim>\<open>zerofillUnusedBlock\<close> over the block numbers still to visit. The
      assertion \<^verbatim>\<open>assert(fileList_[fileNth])\<close> guards a call through the pointer; a
      \<^verbatim>\<open>NULL\<close> there ends the run with \<open>NULL_FILE\<close>. The product
      \<^verbatim>\<open>i * BLOCK_SIZE_\<close> is taken without wrap-around: a block number within the
      bitmap times the block size stays far below \<open>2 ^ 63\<close>.\<close>
  "punchUnused fails s [] = ([], None)"
| "punchUnused fails s (i # rest) =
     (if \<not> BitArray_get (usedChunkInfo s) i then
        (let offset = i * BLOCK_SIZE s;
             req = punchRequest s (BLOCK_SIZE s) offset
         in if \<not> attached s (calcFileNth s offset) then ([], Some NULL_FILE)
            else if fails req then ([req], Some PLATFORM_ERROR)
            else (case punchUnused fails s rest of (reqs, e) \<Rightarrow> (req # reqs, e)))
      else punchUnused fails s rest)"

definition zerofillUnusedBlock ::
  "(punch \<Rightarrow> bool) \<Rightarrow> CheckpointFile \<Rightarrow> punch list \<times> error option" where
  "zerofillUnusedBlock fails s = punchUnused fails s [1..<length (usedChunkInfo s)]"

section \<open>The name parser\<close>

text \<open>
  \<^verbatim>\<open>checkFileName\<close> works with \<^verbatim>\<open>std::string::find\<close>, \<^verbatim>\<open>rfind\<close> and the formatted
  extraction \<^verbatim>\<open>operator>>\<close> of a string stream. These belong to the C++ standard
  library; they are modelled as the library defines them for the classic locale:
  \<^verbatim>\<open>find\<close> gives the first and \<^verbatim>\<open>rfind\<close> the last position at which the pattern
  occurs (\<open>None\<close> for \<^verbatim>\<open>npos\<close>); an extraction does nothing once the fail bit is set,
  skips leading white space, and for a number reads an optional sign and the decimal
  digits that follow, setting the fail bit when there is no digit or the value does not
  fit the type.
\<close>

fun string_find :: "string \<Rightarrow> string \<Rightarrow> nat option" where
  "string_find [] pat = (if pat = [] then Some 0 else None)"
| "string_find (c # cs) pat =
     (if take (length pat) (c # cs) = pat then Some 0
      else map_option Suc (string_find cs pat))"

fun string_rfind :: "string \<Rightarrow> string \<Rightarrow> nat option" where
  "string_rfind [] pat = (if pat = [] then Some 0 else None)"
| "string_rfind (c # cs) pat =
     (case string_rfind cs pat of
        Some i \<Rightarrow> Some (Suc i)
      | None \<Rightarrow> if take (length pat) (c # cs) = pat then Some 0 else None)"

definition isspace :: "char \<Rightarrow> bool" where
  "isspace c = (c \<in> set [CHR '' '', CHR 0x09, CHR 0x0A, CHR 0x0B, CHR 0x0C, CHR 0x0D])"

definition isdigit :: "char \<Rightarrow> bool" where
  "isdigit c = (c \<in> set ''0123456789'')"

definition digitVal :: "char \<Rightarrow> nat" where
  "digitVal c = of_char c - 48"

definition digitsValue :: "string \<Rightarrow> nat" where
  "digitsValue ds = foldl (\<lambda>acc c. acc * 10 + digitVal c) 0 ds"

definition seekg :: "nat \<Rightarrow> istream \<Rightarrow> istream" where
  "seekg n s = (if n \<le> length (content s) then s\<lparr>gpos := n\<rparr> else s\<lparr>failbit := True\<rparr>)"

definition tellg :: "istream \<Rightarrow> nat option" where
  \<comment> \<open>\<open>None\<close> is the position \<open>-1\<close> of a stream whose fail bit is set.\<close>
  "tellg s = (if failbit s then None else Some (gpos s))"

definition skipws :: "istream \<Rightarrow> istream" where
  "skipws s = s\<lparr>gpos := gpos s + length (takeWhile isspace (drop (gpos s) (content s)))\<rparr>"

definition readNumber :: "istream \<Rightarrow> (bool \<times> string) \<times> istream" where
  \<comment> \<open>White space, an optional sign and the digits after it: whether the sign is a
      minus, the digits, and the stream past them.\<close>
  "readNumber s =
     (let s1 = skipws s;
          rest = drop (gpos s1) (content s1);
          neg = (rest \<noteq> [] \<and> hd rest = CHR ''-'');
          signed = (rest \<noteq> [] \<and> (hd rest = CHR ''-'' \<or> hd rest = CHR ''+''));
          ds = takeWhile isdigit (if signed then tl rest else rest)
      in ((neg, ds), s1\<lparr>gpos := gpos s1 + (if signed then 1 else 0) + length ds\<rparr>))"

definition extractUInt32 :: "istream \<Rightarrow> nat \<times> istream" where
  \<comment> \<open>\<^verbatim>\<open>iss >> num1\<close> for a \<^verbatim>\<open>uint32_t\<close>. A minus sign is accepted and the value negated
      modulo \<open>2 ^ 32\<close>, as strtoul does.\<close>
  "extractUInt32 s =
     (if failbit s then (0, s)
      else
        (case readNumber s of ((neg, ds), s1) \<Rightarrow>
           if ds = [] then (0, s1\<lparr>failbit := True\<rparr>)
           else if digitsValue ds > 2 ^ 32 - 1 then (2 ^ 32 - 1, s1\<lparr>failbit := True\<rparr>)
           else ((if neg then (2 ^ 32 - digitsValue ds) mod 2 ^ 32 else digitsValue ds), s1)))"

definition extractInt32 :: "istream \<Rightarrow> int \<times> istream" where
  \<comment> \<open>\<^verbatim>\<open>iss >> num2\<close> for an \<^verbatim>\<open>int32_t\<close>.\<close>
  "extractInt32 s =
     (if failbit s then (0, s)
      else
        (case readNumber s of ((neg, ds), s1) \<Rightarrow>
           if ds = [] then (0, s1\<lparr>failbit := True\<rparr>)
           else if neg \<and> digitsValue ds > 2 ^ 31 then (- (2 ^ 31), s1\<lparr>failbit := True\<rparr>)
           else if \<not> neg \<and> digitsValue ds > 2 ^ 31 - 1 then (2 ^ 31 - 1, s1\<lparr>failbit := True\<rparr>)
           else ((if neg then - int (digitsValue ds) else int (digitsValue ds)), s1)))"

definition extractChar :: "istream \<Rightarrow> char \<times> istream" where
  \<comment> \<open>\<^verbatim>\<open>iss >> c\<close> for a \<^verbatim>\<open>char\<close>; on a failed stream \<^verbatim>\<open>c\<close> keeps no defined value,
      the model gives the null character.\<close>
  "extractChar s =
     (if failbit s then (CHR 0x00, s)
      else
        (let s1 = skipws s
         in if gpos s1 < length (content s1)
            then (content s1 ! gpos s1, s1\<lparr>gpos := gpos s1 + 1\<rparr>)
            else (CHR 0x00, s1\<lparr>failbit := True\<rparr>)))"

definition checkFileName :: "string \<Rightarrow> (nat \<times> int) option" where
  \<comment> \<open>\<^verbatim>\<open>CheckpointFile::checkFileName\<close>: \<open>Some (pgId, splitId)\<close> when it returns true,
      \<open>None\<close> when it returns false (the two outputs then hold
      \<^verbatim>\<open>UNDEF_PARTITIONGROUPID\<close> and \<open>-1\<close>).\<close>
  "checkFileName fileName =
     (if string_find fileName gsCpFileBaseName \<noteq> Some 0 then None
      else
        (case string_rfind fileName gsCpFileExtension of
           None \<Rightarrow> None
         | Some pos \<Rightarrow>
             if pos + length gsCpFileExtension \<noteq> length fileName then None
             else
               (let iss = seekg (length gsCpFileBaseName)
                            \<lparr>content = fileName, gpos = 0, failbit = False\<rparr>
                in case extractUInt32 iss of (num1, iss1) \<Rightarrow>
                   case extractChar iss1 of (c, iss2) \<Rightarrow>
                   case extractInt32 iss2 of (num2, iss3) \<Rightarrow>
                     if failbit iss3 then None
                     else if c \<noteq> CHR ''_'' then None
                     else if tellg iss3 \<noteq> Some pos then None
                     else Some (num1, num2))))"

section \<open>Sequences of public operations\<close>

text \<open>The public operations that change the object or move data.\<close>

datatype operation =
    OpAllocate
  | OpFree nat
  | OpSetUsed nat bool
  | OpSetValid nat bool
  | OpWriteBlock io_outcome nat nat
  | OpWritePartialBlock io_outcome nat nat
  | OpReadBlock FileSystem io_outcome nat nat
  | OpTruncate FileSystem

text \<open>
  \<open>perform\<close> runs one operation and keeps the object, \<open>performAll\<close> runs a sequence
  and stops at the first call that throws. \<open>withinBitmaps\<close> says that the block number of
  a \<^verbatim>\<open>freeBlock\<close>, \<^verbatim>\<open>setUsedBlockInfo\<close> or \<^verbatim>\<open>setValidBlockInfo\<close> lies within the bitmap
  the call writes.
\<close>

fun perform :: "nat \<Rightarrow> operation \<Rightarrow> CheckpointFile \<Rightarrow> error + CheckpointFile" where
  "perform lim OpAllocate s = Inr (snd (allocateBlock lim s))"
| "perform lim (OpFree b) s = Inr (freeBlock b s)"
| "perform lim (OpSetUsed b flag) s = Inr (setUsedBlockInfo b flag s)"
| "perform lim (OpSetValid b flag) s = Inr (setValidBlockInfo b flag s)"
| "perform lim (OpWriteBlock io sz b) s = map_sum id snd (writeBlock io sz b s)"
| "perform lim (OpWritePartialBlock io sz off) s = map_sum id snd (writePartialBlock io sz off s)"
| "perform lim (OpReadBlock fs io sz b) s = map_sum id snd (readBlock fs io sz b s)"
| "perform lim (OpTruncate fs) s = truncate fs s"

fun withinBitmaps :: "operation \<Rightarrow> CheckpointFile \<Rightarrow> bool" where
  "withinBitmaps (OpFree b) s = (b < length (usedChunkInfo s))"
| "withinBitmaps (OpSetUsed b flag) s = (b < length (usedChunkInfo s))"
| "withinBitmaps (OpSetValid b flag) s = (b < length (validChunkInfo s))"
| "withinBitmaps _ s = True"

fun performAll :: "nat \<Rightarrow> operation list \<Rightarrow> CheckpointFile \<Rightarrow> error + CheckpointFile" where
  "performAll lim [] s = Inr s"
| "performAll lim (x # xs) s =
     (case perform lim x s of Inl e \<Rightarrow> Inl e | Inr s' \<Rightarrow> performAll lim xs s')"

fun allWithinBitmaps :: "nat \<Rightarrow> operation list \<Rightarrow> CheckpointFile \<Rightarrow> bool" where
  "allWithinBitmaps lim [] s = True"
| "allWithinBitmaps lim (x # xs) s =
     (withinBitmaps x s \<and>
      (case perform lim x s of Inl e \<Rightarrow> True | Inr s' \<Rightarrow> allWithinBitmaps lim xs s'))"

definition lengthInv :: "CheckpointFile \<Rightarrow> bool" where
  \<comment> \<open>The two bitmaps have the same length and the search cursor lies within them.\<close>
  "lengthInv s =
     (length (usedChunkInfo s) = length (validChunkInfo s) \<and>
      freeBlockSearchCursor s \<le> length (usedChunkInfo s))"

section \<open>The states of the scenarios\<close>

definition scenarioFs :: FileSystem where
  \<comment> \<open>A file system that holds the directory \<^verbatim>\<open>/tmp/t1\<close> and no file, and on which no
      call fails.\<close>
  "scenarioFs =
     \<lparr>exists = (\<lambda>p. p = ''/tmp/t1''),
      isDirectory = (\<lambda>p. p = ''/tmp/t1''),
      getSize = (\<lambda>p. 0),
      openFails = (\<lambda>p. False)\<rparr>"

definition freshStore :: CheckpointFile where
  \<comment> \<open>The object the constructor builds for block size \<open>2 ^ 16\<close>, directory
      \<^verbatim>\<open>/tmp/t1\<close>, partition group 0 and no splitting.\<close>
  "freshStore = (initialMembers 16 ''/tmp/t1'' 0 0 0)\<lparr>dirList := [''/tmp/t1'']\<rparr>"

definition openedStore :: CheckpointFile where
  \<comment> \<open>\<open>freshStore\<close> after \<^verbatim>\<open>open(false, true)\<close> on \<open>scenarioFs\<close>.\<close>
  "openedStore =
     freshStore
       \<lparr>fileNameList := [''/tmp/t1/gs_cp_0_1.dat''],
        fileList := [True],
        blockCountList := [0],
        blockNum := 0,
        usedChunkInfo := [False, False],
        validChunkInfo := [False, False],
        freeUseBitNum := 2,
        freeBlockSearchCursor := 0\<rparr>"

definition writtenStore :: CheckpointFile where
  \<comment> \<open>\<open>openedStore\<close> after \<^verbatim>\<open>writeBlock(buffer, 1, 0)\<close>.\<close>
  "writtenStore = openedStore\<lparr>blockNum := 1, writeBlockCount := 1\<rparr>"

definition truncatedStore :: CheckpointFile where
  \<comment> \<open>\<open>writtenStore\<close> after \<^verbatim>\<open>truncate()\<close> on \<open>scenarioFs\<close>.\<close>
  "truncatedStore = writtenStore\<lparr>blockNum := 0, freeUseBitNum := 0\<rparr>"

definition dataFs :: FileSystem where
  \<comment> \<open>A file system that holds the directory \<^verbatim>\<open>/tmp/t1\<close> and in it a checkpoint
      file of 196000 bytes, which is three blocks of \<open>2 ^ 16\<close> bytes, the last one
      partly filled.\<close>
  "dataFs =
     \<lparr>exists = (\<lambda>p. p = ''/tmp/t1'' \<or> p = ''/tmp/t1/gs_cp_0_1.dat''),
      isDirectory = (\<lambda>p. p = ''/tmp/t1''),
      getSize = (\<lambda>p. if p = ''/tmp/t1/gs_cp_0_1.dat'' then 196000 else 0),
      openFails = (\<lambda>p. False)\<rparr>"

definition dataStore :: CheckpointFile where
  \<comment> \<open>\<open>freshStore\<close> after \<^verbatim>\<open>open(false, false)\<close> on \<open>dataFs\<close>.\<close>
  "dataStore =
     freshStore
       \<lparr>fileNameList := [''/tmp/t1/gs_cp_0_1.dat''],
        fileList := [True],
        blockCountList := [3],
        blockNum := 3,
        usedChunkInfo := [False, False, False, False, False],
        validChunkInfo := [False, False, False, False, False],
        freeUseBitNum := 5,
        freeBlockSearchCursor := 0\<rparr>"

definition punchStore :: CheckpointFile where
  \<comment> \<open>\<open>openedStore\<close> after four allocations, a write to each of the blocks 0 to 3,
      \<^verbatim>\<open>freeBlock(1)\<close> and \<^verbatim>\<open>freeBlock(3)\<close>.\<close>
  "punchStore =
     openedStore
       \<lparr>usedChunkInfo := [True, False, True, False],
        validChunkInfo := [False, False, False, False],
        freeUseBitNum := 2,
        blockNum := 4,
        writeBlockCount := 4\<rparr>"


definition createdFs :: FileSystem where
  \<comment> \<open>\<open>scenarioFs\<close> once \<^verbatim>\<open>open(false, true)\<close> has created the checkpoint file: the
      directory \<^verbatim>\<open>/tmp/t1\<close> and in it the file, of size 0.\<close>
  "createdFs =
     \<lparr>exists = (\<lambda>p. p = ''/tmp/t1'' \<or> p = ''/tmp/t1/gs_cp_0_1.dat''),
      isDirectory = (\<lambda>p. p = ''/tmp/t1''),
      getSize = (\<lambda>p. 0),
      openFails = (\<lambda>p. False)\<rparr>"

definition searchLimitScenario :: CheckpointFile where
  \<comment> \<open>The state of the search-limit scenario: 2000 used blocks, one free block at
      position 2000, the cursor at 0 and one block counted free.\<close>
  "searchLimitScenario =
     (initialMembers 16 [] 0 0 0)
       \<lparr>usedChunkInfo := replicate 2000 True @ [False],
        validChunkInfo := replicate 2001 False,
        freeBlockSearchCursor := 0,
        freeUseBitNum := 1\<rparr>"

section \<open>Properties of the bitmap\<close>

lemma BitArray_set_length:
  "length (BitArray_set a i v) = max (length a) (i + 1)"
  by (auto simp: BitArray_set_def)

lemma BitArray_get_set_same: "BitArray_get (BitArray_set a i v) i = v"
  by (auto simp: BitArray_get_def BitArray_set_def nth_append)

lemma BitArray_get_set_other:
  "j \<noteq> i \<Longrightarrow> BitArray_get (BitArray_set a i v) j = BitArray_get a j"
  by (auto simp: BitArray_get_def BitArray_set_def nth_append)

lemma countFree_append: "countFree (a @ b) = countFree a + countFree b"
  by (simp add: countFree_def)

lemma countFree_update:
  "i < length a \<Longrightarrow>
   countFree (a[i := v]) + (if a ! i then 0 else 1) = countFree a + (if v then 0 else 1)"
proof (induction a arbitrary: i)
  case Nil
  then show ?case by simp
next
  case (Cons x a)
  show ?case
  proof (cases i)
    case 0
    then show ?thesis by (simp add: countFree_def)
  next
    case (Suc j)
    with Cons.prems have "j < length a" by simp
    from Cons.IH [OF this, of ] Suc show ?thesis
      by (auto simp: countFree_def split: if_splits)
  qed
qed

section \<open>Properties of the allocator\<close>

lemma searchFree_found:
  "searchFree lim used bound pos count = (Some p, pos', count') \<Longrightarrow>
   pos \<le> p \<and> p < bound \<and> \<not> BitArray_get used p \<and> pos' = p"
proof (induction lim used bound pos count rule: searchFree.induct)
  case (1 lim used bound pos count)
  show ?case
  proof (cases "pos < bound \<and> BitArray_get used pos \<and> \<not> count > lim")
    case True
    with "1.prems" have "searchFree lim used bound (pos + 1) (count + 1) = (Some p, pos', count')"
      by (simp add: searchFree.simps [of lim used bound pos count])
    with "1.IH" True show ?thesis by fastforce
  next
    case False
    with "1.prems" show ?thesis
      by (auto simp: searchFree.simps [of lim used bound pos count] split: if_splits)
  qed
qed

lemma searchFree_all_used:
  "count \<le> lim + 1 \<Longrightarrow> pos + (lim + 1 - count) < bound \<Longrightarrow>
   (\<forall>i. pos \<le> i \<and> i \<le> pos + (lim + 1 - count) \<longrightarrow> BitArray_get used i) \<Longrightarrow>
   searchFree lim used bound pos count = (None, pos + (lim + 1 - count), lim + 1)"
proof (induction lim used bound pos count rule: searchFree.induct)
  case (1 lim used bound pos count)
  have here: "pos < bound" "BitArray_get used pos" using "1.prems" by auto
  show ?case
  proof (cases "count > lim")
    case True
    with "1.prems" have "count = lim + 1" by simp
    with here show ?thesis by (subst searchFree.simps) simp
  next
    case False
    have "searchFree lim used bound (pos + 1) (count + 1) =
          (None, pos + 1 + (lim + 1 - (count + 1)), lim + 1)"
      using here False "1.prems" by (intro "1.IH") auto
    with here False show ?thesis
      by (simp add: searchFree.simps [of lim used bound pos count])
  qed
qed

lemma setUsedBlockInfo_used:
  "usedChunkInfo (setUsedBlockInfo p f s) = BitArray_set (usedChunkInfo s) p f"
  by (simp add: setUsedBlockInfo_def Let_def)

lemma setUsedBlockInfo_valid:
  "validChunkInfo (setUsedBlockInfo p f s) = validChunkInfo s"
  by (simp add: setUsedBlockInfo_def Let_def)

lemma setUsedBlockInfo_cursor:
  "freeBlockSearchCursor (setUsedBlockInfo p f s) = freeBlockSearchCursor s"
  by (simp add: setUsedBlockInfo_def Let_def)

lemma scanFree_found:
  assumes "scanFree lim s = (Some p, pos, cnt)"
  shows "\<not> BitArray_get (usedChunkInfo s) p \<and> pos = p \<and>
         (p < length (usedChunkInfo s) \<or> p < freeBlockSearchCursor s)"
proof -
  obtain a1 p1 c1 where r1:
    "searchFree lim (usedChunkInfo s) (length (usedChunkInfo s)) (freeBlockSearchCursor s) 0
       = (a1, p1, c1)"
    by (metis prod_cases3)
  show ?thesis
  proof (cases "a1 = None \<and> c1 \<le> lim")
    case True
    with assms r1 have
      "searchFree lim (usedChunkInfo s) (freeBlockSearchCursor s) 0 c1 = (Some p, pos, cnt)"
      by (simp add: scanFree_def Let_def)
    from searchFree_found [OF this] show ?thesis by simp
  next
    case False
    with assms r1 have
      "searchFree lim (usedChunkInfo s) (length (usedChunkInfo s)) (freeBlockSearchCursor s) 0
         = (Some p, pos, cnt)"
      by (auto simp: scanFree_def Let_def)
    from searchFree_found [OF this] show ?thesis by simp
  qed
qed

lemma allocateBlock_reuse:
  assumes "freeUseBitNum s > 0" and "scanFree lim s = (Some p, pos, cnt)"
  shows "allocateBlock lim s =
           (p, setUsedBlockInfo p True
                 (s\<lparr>freeBlockSearchCursor :=
                      (if p + 1 \<ge> length (usedChunkInfo s) then 0 else p + 1)\<rparr>))"
proof -
  from scanFree_found [OF assms(2)] have "pos = p" by simp
  with assms show ?thesis by (simp add: allocateBlock_def Let_def)
qed

lemma allocateBlock_append:
  assumes "freeUseBitNum s = 0 \<or> fst (scanFree lim s) = None"
  shows "fst (allocateBlock lim s) = length (usedChunkInfo s) \<and>
         usedChunkInfo (snd (allocateBlock lim s)) = usedChunkInfo s @ [True] \<and>
         validChunkInfo (snd (allocateBlock lim s)) =
           BitArray_set (validChunkInfo s) (length (usedChunkInfo s)) False \<and>
         freeUseBitNum (snd (allocateBlock lim s)) = freeUseBitNum s"
proof (cases "freeUseBitNum s = 0")
  case True
  then show ?thesis
    by (simp add: allocateBlock_def Let_def BitArray_append_def setUsedBlockInfo_def
        BitArray_get_def BitArray_set_def)
next
  case False
  with assms obtain pos cnt where "scanFree lim s = (None, pos, cnt)"
    by (metis fst_conv prod_cases3)
  with False show ?thesis
    by (simp add: allocateBlock_def Let_def BitArray_append_def setUsedBlockInfo_def
        BitArray_get_def BitArray_set_def)
qed

lemma allocateBlock_cases:
  obtains (reuse) p pos cnt where "freeUseBitNum s > 0" "scanFree lim s = (Some p, pos, cnt)"
  | (append) "freeUseBitNum s = 0 \<or> fst (scanFree lim s) = None"
proof (cases "freeUseBitNum s = 0 \<or> fst (scanFree lim s) = None")
  case True
  then show ?thesis by (rule append)
next
  case False
  then obtain p pos cnt where "scanFree lim s = (Some p, pos, cnt)"
    by (metis fst_conv not_None_eq prod_cases3)
  with False show ?thesis by (auto intro: reuse)
qed

lemma allocateBlock_result_used:
  "fst (allocateBlock lim s) < length (usedChunkInfo (snd (allocateBlock lim s))) \<and>
   usedChunkInfo (snd (allocateBlock lim s)) ! fst (allocateBlock lim s) = True"
proof (cases rule: allocateBlock_cases [where s = s and lim = lim])
  case (reuse p pos cnt)
  have "BitArray_get (BitArray_set (usedChunkInfo s) p True) p" 
    by (simp add: BitArray_get_set_same)
  then show ?thesis
    using allocateBlock_reuse [OF reuse]
    by (simp add: setUsedBlockInfo_used BitArray_set_length BitArray_get_def split: if_splits)
next
  case append
  from allocateBlock_append [OF this] show ?thesis by (simp add: nth_append)
qed

lemma allocateBlock_was_free:
  "\<not> BitArray_get (usedChunkInfo s) (fst (allocateBlock lim s))"
proof (cases rule: allocateBlock_cases [where s = s and lim = lim])
  case (reuse p pos cnt)
  from scanFree_found [OF reuse(2)] allocateBlock_reuse [OF reuse] show ?thesis by simp
next
  case append
  from allocateBlock_append [OF this] show ?thesis by (simp add: BitArray_get_def)
qed

lemma allocateBlock_keeps_used:
  assumes "BitArray_get (usedChunkInfo s) b"
  shows "BitArray_get (usedChunkInfo (snd (allocateBlock lim s))) b"
proof (cases rule: allocateBlock_cases [where s = s and lim = lim])
  case (reuse p pos cnt)
  show ?thesis
    using allocateBlock_reuse [OF reuse] assms
    by (cases "b = p") (simp_all add: setUsedBlockInfo_used BitArray_get_set_same BitArray_get_set_other)
next
  case append
  from allocateBlock_append [OF this] assms show ?thesis
    by (auto simp: BitArray_get_def nth_append split: if_splits)
qed

lemma exec_keeps_used:
  "BitArray_get (usedChunkInfo s) b \<Longrightarrow> c \<noteq> Free b \<Longrightarrow>
   BitArray_get (usedChunkInfo (exec lim c s)) b"
  by (cases c)
    (simp_all add: allocateBlock_keeps_used freeBlock_def setUsedBlockInfo_used
      BitArray_get_set_other)

lemma run_keeps_used:
  "BitArray_get (usedChunkInfo s) b \<Longrightarrow> Free b \<notin> set cs \<Longrightarrow>
   BitArray_get (usedChunkInfo (run lim cs s)) b"
proof (induction cs arbitrary: s)
  case Nil
  then show ?case by simp
next
  case (Cons c cs)
  from Cons.prems have "BitArray_get (usedChunkInfo (exec lim c s)) b"
    by (intro exec_keeps_used) auto
  with Cons show ?case by simp
qed

lemma allocateBlock_cursor:
  assumes "freeBlockSearchCursor s \<le> length (usedChunkInfo s)"
  shows "freeBlockSearchCursor (snd (allocateBlock lim s)) \<le> length (usedChunkInfo s)"
proof (cases "freeUseBitNum s = 0")
  case True
  with assms show ?thesis
    by (simp add: allocateBlock_def Let_def BitArray_append_def setUsedBlockInfo_cursor)
next
  case False
  obtain found pos cnt where "scanFree lim s = (found, pos, cnt)"
    by (metis prod_cases3)
  with False show ?thesis
    by (cases found)
      (simp_all add: allocateBlock_def Let_def BitArray_append_def setUsedBlockInfo_cursor)
qed

lemma allocateBlock_inv:
  assumes "allocInv s"
  shows "allocInv (snd (allocateBlock lim s))"
proof (cases rule: allocateBlock_cases [where s = s and lim = lim])
  case (reuse p pos cnt)
  from scanFree_found [OF reuse(2)] assms
  have p: "p < length (usedChunkInfo s)" "\<not> usedChunkInfo s ! p"
    by (auto simp: allocInv_def BitArray_get_def split: if_splits)
  from countFree_update [OF p(1), of True] p(2)
  have "countFree ((usedChunkInfo s)[p := True]) + 1 = countFree (usedChunkInfo s)" by simp
  with p assms show ?thesis
    using allocateBlock_reuse [OF reuse]
    by (simp add: allocInv_def setUsedBlockInfo_def Let_def BitArray_get_def BitArray_set_def)
next
  case append
  from allocateBlock_append [OF this] allocateBlock_cursor [of s lim] assms
  show ?thesis by (simp add: allocInv_def countFree_def)
qed

lemma freeBlock_inv:
  assumes "allocInv s" and "b < length (usedChunkInfo s)" and "usedChunkInfo s ! b"
  shows "allocInv (freeBlock b s)"
proof -
  from countFree_update [OF assms(2), of False] assms(3)
  have "countFree ((usedChunkInfo s)[b := False]) = countFree (usedChunkInfo s) + 1" by simp
  with assms show ?thesis
    by (simp add: allocInv_def freeBlock_def setUsedBlockInfo_def Let_def BitArray_get_def
        BitArray_set_def)
qed

lemma run_inv:
  "allocInv s \<Longrightarrow> freesAllocated lim cs s \<Longrightarrow> allocInv (run lim cs s)"
proof (induction cs arbitrary: s)
  case Nil
  then show ?case by simp
next
  case (Cons c cs)
  show ?case
  proof (cases c)
    case Allocate
    with Cons.prems have "allocInv (exec lim c s)" "freesAllocated lim cs (exec lim c s)"
      by (simp_all add: allocateBlock_inv)
    with Cons.IH show ?thesis by simp
  next
    case (Free b)
    with Cons.prems have "allocInv (exec lim c s)" "freesAllocated lim cs (exec lim c s)"
      by (simp_all add: freeBlock_inv)
    with Cons.IH show ?thesis by simp
  qed
qed

lemmas allocator_eval = allocateBlock_def scanFree_def searchFree.simps setUsedBlockInfo_def
  freeBlock_def BitArray_get_def BitArray_set_def BitArray_append_def BitArray_new_def
  initialMembers_def Let_def

text \<open>
  Claim C3. Start from a state in which \<^verbatim>\<open>freeUseBitNum_\<close> is the number of false bits
  of the used bitmap and the cursor lies within the bitmap (the constructed object is
  one; \<open>allocInv\<close>). After any sequence of \<^verbatim>\<open>allocateBlock\<close> and \<^verbatim>\<open>freeBlock\<close> calls,
  each \<^verbatim>\<open>freeBlock\<close> on a block that is allocated at that moment, \<^verbatim>\<open>freeUseBitNum_\<close> is
  again the number of false bits of the used bitmap over its whole length.
\<close>

theorem freeUseBitNum_counts_free_bits:
  assumes "allocInv s" and "freesAllocated lim cs s"
  shows "freeUseBitNum (run lim cs s) = countFree (usedChunkInfo (run lim cs s))"
  using run_inv [OF assms] by (simp add: allocInv_def)

theorem freeUseBitNum_counts_free_bits_witness:
  "allocInv (initialMembers 16 [] 0 0 0) \<and>
   freesAllocated 1024 [Allocate, Allocate, Free 0, Allocate, Free 1]
     (initialMembers 16 [] 0 0 0) \<and>
   usedChunkInfo (run 1024 [Allocate, Allocate, Free 0, Allocate, Free 1]
     (initialMembers 16 [] 0 0 0)) = [True, False] \<and>
   freeUseBitNum (run 1024 [Allocate, Allocate, Free 0, Allocate, Free 1]
     (initialMembers 16 [] 0 0 0)) = 1"
proof -
  have a: "allocInv (initialMembers 16 [] 0 0 0)"
    by (simp add: allocator_eval allocInv_def countFree_def)
  have b: "freesAllocated 1024 [Allocate, Allocate, Free 0, Allocate, Free 1]
             (initialMembers 16 [] 0 0 0)"
    by (simp add: allocator_eval)
  have c: "usedChunkInfo (run 1024 [Allocate, Allocate, Free 0, Allocate, Free 1]
             (initialMembers 16 [] 0 0 0)) = [True, False]"
    by (simp add: allocator_eval)
  from freeUseBitNum_counts_free_bits [OF a b] a b c show ?thesis
    by (simp add: countFree_def)
qed

text \<open>
  Claim C4. Whatever the state, the block number \<^verbatim>\<open>allocateBlock\<close> returns lies within
  the used bitmap as the call leaves it, and its used bit is set. Hence, when calls of
  \<^verbatim>\<open>allocateBlock\<close> and \<^verbatim>\<open>freeBlock\<close> follow a call that returned \<open>b\<close> and none of them
  is \<^verbatim>\<open>freeBlock(b)\<close>, the next \<^verbatim>\<open>allocateBlock\<close> does not return \<open>b\<close>.
\<close>

theorem allocateBlock_returns_used_block:
  "fst (allocateBlock lim s) < length (usedChunkInfo (snd (allocateBlock lim s))) \<and>
   usedChunkInfo (snd (allocateBlock lim s)) ! fst (allocateBlock lim s) \<and>
   (Free (fst (allocateBlock lim s)) \<notin> set cs \<longrightarrow>
      fst (allocateBlock lim (run lim cs (snd (allocateBlock lim s))))
        \<noteq> fst (allocateBlock lim s))"
proof -
  let ?b = "fst (allocateBlock lim s)"
  let ?s1 = "snd (allocateBlock lim s)"
  have used: "?b < length (usedChunkInfo ?s1) \<and> usedChunkInfo ?s1 ! ?b"
    using allocateBlock_result_used [of lim s] by simp
  then have get: "BitArray_get (usedChunkInfo ?s1) ?b"
    by (simp add: BitArray_get_def)
  have "fst (allocateBlock lim (run lim cs ?s1)) \<noteq> ?b" if "Free ?b \<notin> set cs"
  proof
    assume eq: "fst (allocateBlock lim (run lim cs ?s1)) = ?b"
    from run_keeps_used [OF get that]
    have "BitArray_get (usedChunkInfo (run lim cs ?s1)) ?b" .
    with allocateBlock_was_free [of "run lim cs ?s1" lim] eq show False by simp
  qed
  with used show ?thesis by blast
qed

theorem allocateBlock_returns_used_block_witness:
  "fst (allocateBlock 1024 (initialMembers 16 [] 0 0 0)) = 0 \<and>
   Free 0 \<notin> set [Allocate, Free 1] \<and>
   usedChunkInfo (snd (allocateBlock 1024 (initialMembers 16 [] 0 0 0))) = [True] \<and>
   fst (allocateBlock 1024
          (run 1024 [Allocate, Free 1] (snd (allocateBlock 1024 (initialMembers 16 [] 0 0 0)))))
     = 1"
proof -
  have a: "fst (allocateBlock 1024 (initialMembers 16 [] 0 0 0)) = 0"
    by (simp add: allocator_eval)
  have b: "fst (allocateBlock 1024
          (run 1024 [Allocate, Free 1] (snd (allocateBlock 1024 (initialMembers 16 [] 0 0 0)))))
     = 1"
    by (simp add: allocator_eval)
  have c: "usedChunkInfo (snd (allocateBlock 1024 (initialMembers 16 [] 0 0 0))) = [True]"
    by (simp add: allocator_eval)
  from allocateBlock_returns_used_block [of 1024 "initialMembers 16 [] 0 0 0" "[Allocate, Free 1]"]
    a b c
  show ?thesis by simp
qed

lemma scanFree_window_used:
  assumes "freeBlockSearchCursor s + lim + 1 < length (usedChunkInfo s)"
    and "\<forall>i. freeBlockSearchCursor s \<le> i \<and> i \<le> freeBlockSearchCursor s + lim + 1
           \<longrightarrow> usedChunkInfo s ! i"
  shows "scanFree lim s = (None, freeBlockSearchCursor s + lim + 1, lim + 1)"
proof -
  have "searchFree lim (usedChunkInfo s) (length (usedChunkInfo s)) (freeBlockSearchCursor s) 0
        = (None, freeBlockSearchCursor s + (lim + 1 - 0), lim + 1)"
    using assms by (intro searchFree_all_used) (auto simp: BitArray_get_def)
  then show ?thesis by (simp add: scanFree_def Let_def)
qed

text \<open>
  Claim C5. The scan for a free bit is capped. With the limit 1024, a used bitmap of 2000
  set bits followed by one clear bit at position 2000, the cursor at 0 and
  \<^verbatim>\<open>freeUseBitNum_\<close> 1, the scan finds nothing and \<^verbatim>\<open>allocateBlock\<close> returns 2001. In
  general, when \<^verbatim>\<open>freeUseBitNum_\<close> is 0 or the capped scan finds no free bit,
  \<^verbatim>\<open>allocateBlock\<close> appends a set bit to the used bitmap at the new index \<open>p\<close>, the old
  length, stores false at \<open>p\<close> in the valid bitmap and returns \<open>p\<close>.
\<close>

theorem allocateBlock_search_limit:
  "(usedChunkInfo s = replicate 2000 True @ [False] \<and> freeBlockSearchCursor s = 0 \<and>
    freeUseBitNum s = 1 \<longrightarrow>
      fst (scanFree 1024 s) = None \<and> fst (allocateBlock 1024 s) = 2001) \<and>
   (freeUseBitNum s = 0 \<or> fst (scanFree lim s) = None \<longrightarrow>
      fst (allocateBlock lim s) = length (usedChunkInfo s) \<and>
      usedChunkInfo (snd (allocateBlock lim s)) = usedChunkInfo s @ [True] \<and>
      validChunkInfo (snd (allocateBlock lim s)) =
        BitArray_set (validChunkInfo s) (length (usedChunkInfo s)) False \<and>
      BitArray_get (validChunkInfo (snd (allocateBlock lim s))) (fst (allocateBlock lim s))
        = False)"
proof -
  have scenario: "fst (scanFree 1024 s) = None \<and> fst (allocateBlock 1024 s) = 2001"
    if h: "usedChunkInfo s = replicate 2000 True @ [False]" "freeBlockSearchCursor s = 0"
      "freeUseBitNum s = 1"
  proof -
    have "scanFree 1024 s = (None, freeBlockSearchCursor s + 1024 + 1, 1024 + 1)"
      using h by (intro scanFree_window_used) (auto simp: nth_append)
    then have none: "fst (scanFree 1024 s) = None" by simp
    from allocateBlock_append [of s 1024] none h show ?thesis by simp
  qed
  have general: "fst (allocateBlock lim s) = length (usedChunkInfo s) \<and>
      usedChunkInfo (snd (allocateBlock lim s)) = usedChunkInfo s @ [True] \<and>
      validChunkInfo (snd (allocateBlock lim s)) =
        BitArray_set (validChunkInfo s) (length (usedChunkInfo s)) False \<and>
      BitArray_get (validChunkInfo (snd (allocateBlock lim s))) (fst (allocateBlock lim s))
        = False"
    if "freeUseBitNum s = 0 \<or> fst (scanFree lim s) = None"
    using allocateBlock_append [OF that] by (simp add: BitArray_get_set_same)
  from scenario general show ?thesis by blast
qed


theorem allocateBlock_search_limit_witness:
  "usedChunkInfo searchLimitScenario = replicate 2000 True @ [False] \<and>
   freeBlockSearchCursor searchLimitScenario = 0 \<and>
   freeUseBitNum searchLimitScenario = 1 \<and>
   fst (scanFree 1024 searchLimitScenario) = None \<and>
   fst (allocateBlock 1024 searchLimitScenario) = 2001 \<and>
   usedChunkInfo (snd (allocateBlock 1024 searchLimitScenario))
     = replicate 2000 True @ [False, True] \<and>
   length (validChunkInfo (snd (allocateBlock 1024 searchLimitScenario))) = 2002 \<and>
   BitArray_get (validChunkInfo (snd (allocateBlock 1024 searchLimitScenario))) 2001 = False"
proof -
  have h: "usedChunkInfo searchLimitScenario = replicate 2000 True @ [False]"
    "freeBlockSearchCursor searchLimitScenario = 0"
    "freeUseBitNum searchLimitScenario = 1"
    "validChunkInfo searchLimitScenario = replicate 2001 False"
    by (simp_all add: searchLimitScenario_def)
  from allocateBlock_search_limit [of searchLimitScenario 1024] h show ?thesis
    by (simp add: BitArray_set_length BitArray_get_set_same)
qed

section \<open>The scenarios\<close>

lemma newCheckpointFile_freshStore:
  "newCheckpointFile l1 l2 fs 16 ''/tmp/t1'' 0 0 0 [] = Inr freshStore"
  by (simp add: newCheckpointFile_def freshStore_def initialMembers_def Let_def)

lemma showNat_digit: "n < 10 \<Longrightarrow> showNat n = [digitChar n]"
  by (subst showNat.simps) simp

lemma open_file_freshStore:
  "open_file scenarioFs False True freshStore = Inr (True, openedStore)"
  by (simp add: open_file_def openedStore_def freshStore_def initialMembers_def Let_def
      scenarioFs_def checkDirectory_def splitFileName_def showNat_digit digitChar_def
      gsCpFileBaseName_def gsCpFileSeparator_def gsCpFileExtension_def
      BitArray_new_def BitArray_set_def BitArray_reserve_def BLOCK_SIZE_def)

lemma scenario_one:
  "fst (allocateBlock lim openedStore) = 0 \<and>
   fst (allocateBlock lim (snd (allocateBlock lim openedStore))) = 1 \<and>
   fst (allocateBlock lim (freeBlock 0
     (snd (allocateBlock lim (snd (allocateBlock lim openedStore)))))) = 0"
  by (simp add: allocator_eval openedStore_def freshStore_def)

section \<open>Properties of the I/O engine\<close>

lemma readBlock_invalid_parameter_iff:
  "readBlock fs io sz blockNo s = Inl CF_READ_CHUNK_FAILED \<longleftrightarrow>
     blockNum s < (sz + blockNo + 2 ^ 64 - 1) mod 2 ^ 64 \<or> sz = 0"
  by (cases io) (simp_all add: readBlock_def Let_def)

text \<open>
  Claim C1, evaluated on the code. The guard of \<^verbatim>\<open>readBlock\<close> is
  \<^verbatim>\<open>blockNum_ < size + blockNo - 1 || size == 0\<close>, a strict comparison. On the store
  opened over no data, where \<^verbatim>\<open>blockNum_\<close> is 0, \<^verbatim>\<open>readBlock(buffer, 1, 0)\<close> compares
  \<open>0 < 0\<close> and is not rejected with the invalid-parameter error, whatever the file
  system and the transfer do; when the transfer reports success the call returns 1.
\<close>

theorem readBlock_empty_store_not_rejected:
  "blockNum openedStore = 0 \<and>
   readBlock fs io 1 0 openedStore \<noteq> Inl CF_READ_CHUNK_FAILED \<and>
   readBlock scenarioFs (IoDone 0) 1 0 openedStore
     = Inr (1, openedStore\<lparr>readBlockCount := 1\<rparr>)"
proof -
  have a: "blockNum openedStore = 0"
    by (simp add: openedStore_def)
  have b: "readBlock fs io 1 0 openedStore \<noteq> Inl CF_READ_CHUNK_FAILED"
    by (simp add: readBlock_invalid_parameter_iff a)
  have c: "readBlock scenarioFs (IoDone 0) 1 0 openedStore
     = Inr (1, openedStore\<lparr>readBlockCount := 1\<rparr>)"
    by (simp add: readBlock_def Let_def openedStore_def freshStore_def initialMembers_def
        attached_def calcFileNth_def BLOCK_SIZE_def)
  from a b c show ?thesis by simp
qed


section \<open>Properties of truncate\<close>

lemma truncate_result:
  assumes "truncate fs s = Inr s'"
  shows "usedChunkInfo s' = replicate (length (usedChunkInfo s)) False"
    and "validChunkInfo s' = replicate (length (validChunkInfo s)) False"
    and "blockNum s' = 0" and "freeUseBitNum s' = 0" and "freeBlockSearchCursor s' = 0"
    and "readBlockCount s' = readBlockCount s" and "writeBlockCount s' = writeBlockCount s"
    and "readRetryCount s' = readRetryCount s" and "writeRetryCount s' = writeRetryCount s"
  using assms by (auto simp: truncate_def truncateWith_def BitArray_reset_def split: if_splits)

lemma truncate_scenarioFs: "truncate scenarioFs s \<noteq> Inl e"
  by (simp add: truncate_def truncateWith_def scenarioFs_def list_ex_iff)

lemma truncate_then_allocate:
  assumes "truncate fs s = Inr s'"
  shows "fst (allocateBlock lim s') = length (usedChunkInfo s)"
  using truncate_result [OF assms] allocateBlock_append [of s' lim] by simp

lemma truncateWith_result:
  assumes "truncateWith reset fs s = Inr s'"
  shows "usedChunkInfo s' = reset (usedChunkInfo s)"
    and "validChunkInfo s' = reset (validChunkInfo s)"
    and "blockNum s' = 0" and "freeUseBitNum s' = 0" and "freeBlockSearchCursor s' = 0"
  using assms by (auto simp: truncateWith_def split: if_splits)

lemma truncateWith_then_allocate:
  assumes "truncateWith reset fs s = Inr s'"
  shows "fst (allocateBlock lim s') = length (reset (usedChunkInfo s))"
  using truncateWith_result [OF assms] allocateBlock_append [of s' lim] by simp




lemma writeBlock_openedStore:
  "writeBlock (IoDone 0) 1 0 openedStore = Inr (1, writtenStore)"
  by (simp add: writeBlock_def Let_def writtenStore_def openedStore_def freshStore_def
      initialMembers_def calcFileNth_def BLOCK_SIZE_def)

lemma truncate_writtenStore: "truncate scenarioFs writtenStore = Inr truncatedStore"
  by (simp add: truncate_def truncateWith_def truncatedStore_def writtenStore_def openedStore_def
      freshStore_def initialMembers_def scenarioFs_def BitArray_reset_def numeral_2_eq_2)

text \<open>
  Claim C7, as amended. A \<^verbatim>\<open>truncate\<close> that returns has set the allocator cursor,
  \<^verbatim>\<open>blockNum_\<close> and \<^verbatim>\<open>freeUseBitNum_\<close> to 0 and has left all four counters, the read and
  written block counts and the read and write retry counts, at the values they had
  before the call.
\<close>

theorem truncate_resets_cursor_keeps_counters:
  assumes "truncate fs s = Inr s'"
  shows "freeBlockSearchCursor s' = 0 \<and> blockNum s' = 0 \<and> freeUseBitNum s' = 0 \<and>
         readBlockCount s' = readBlockCount s \<and> writeBlockCount s' = writeBlockCount s \<and>
         readRetryCount s' = readRetryCount s \<and> writeRetryCount s' = writeRetryCount s"
  using truncate_result [OF assms] by simp

theorem truncate_resets_cursor_keeps_counters_witness:
  "truncate scenarioFs writtenStore = Inr truncatedStore \<and>
   writeBlockCount writtenStore = 1 \<and>
   freeBlockSearchCursor truncatedStore = 0 \<and> blockNum truncatedStore = 0 \<and>
   freeUseBitNum truncatedStore = 0 \<and>
   readBlockCount truncatedStore = readBlockCount writtenStore \<and>
   writeBlockCount truncatedStore = writeBlockCount writtenStore \<and>
   readRetryCount truncatedStore = readRetryCount writtenStore \<and>
   writeRetryCount truncatedStore = writeRetryCount writtenStore"
  using truncate_resets_cursor_keeps_counters [OF truncate_writtenStore]
    truncate_writtenStore
  by (simp add: writtenStore_def)

text \<open>
  Claim C7 as the specification states it fails: after one \<^verbatim>\<open>writeBlock\<close> on the opened
  store the written block count is 1, and it is still 1 after \<^verbatim>\<open>truncate\<close>.
\<close>

theorem truncate_counters_counterexample:
  "writeBlock (IoDone 0) 1 0 openedStore = Inr (1, writtenStore) \<and>
   map_sum id writeBlockCount (truncate scenarioFs writtenStore) = Inr 1"
proof -
  have "writeBlockCount truncatedStore = 1"
    by (simp add: truncatedStore_def writtenStore_def)
  with writeBlock_openedStore truncate_writtenStore show ?thesis
    by simp
qed

section \<open>Properties of open\<close>

lemma openLoop_frame:
  "openLoop fs checkOnly createMode idxs s tot = Inr (s', tot') \<Longrightarrow>
   usedChunkInfo s' = usedChunkInfo s \<and> validChunkInfo s' = validChunkInfo s \<and>
   length (blockCountList s') = length (blockCountList s)"
proof (induction idxs arbitrary: s tot)
  case Nil
  then show ?case by simp
next
  case (Cons i rest)
  let ?name = "splitFileName s i"
  let ?s1 = "s\<lparr>fileNameList := (fileNameList s)[i := ?name]\<rparr>"
  show ?case
  proof (cases "exists fs ?name")
    case True
    let ?n = "(getSize fs ?name + BLOCK_SIZE ?s1 - 1) div BLOCK_SIZE ?s1"
    let ?s2 = "?s1\<lparr>fileList := (fileList ?s1)[i := True],
                 blockCountList := (blockCountList ?s1)[i := ?n]\<rparr>"
    from Cons.prems True
    have "openLoop fs checkOnly createMode rest ?s2 (tot + ?n) = Inr (s', tot')"
      by (simp add: Let_def split: if_splits)
    from Cons.IH [OF this] show ?thesis by simp
  next
    case False
    let ?s2 = "?s1\<lparr>fileList := (fileList ?s1)[i := True],
                 blockCountList := (blockCountList ?s1)[i := 0]\<rparr>"
    from Cons.prems False
    have "openLoop fs checkOnly createMode rest ?s2 tot = Inr (s', tot')"
      by (simp add: Let_def split: if_splits)
    from Cons.IH [OF this] show ?thesis by simp
  qed
qed

lemma openLoop_total:
  "openLoop fs checkOnly createMode [k..<n] s tot = Inr (s', tot') \<Longrightarrow>
   n \<le> length (blockCountList s) \<Longrightarrow> tot = sum_list (take k (blockCountList s)) \<Longrightarrow>
   k \<le> n \<Longrightarrow> tot' = sum_list (take n (blockCountList s'))"
proof (induction "n - k" arbitrary: k s tot)
  case 0
  then show ?case by auto
next
  case (Suc m)
  then have kn: "k < n" by simp
  then have upt: "[k..<n] = k # [Suc k..<n]" by (simp add: upt_conv_Cons)
  let ?name = "splitFileName s k"
  let ?s1 = "s\<lparr>fileNameList := (fileNameList s)[k := ?name]\<rparr>"
  have take_upd: "sum_list (take (Suc k) ((blockCountList s)[k := c]))
      = sum_list (take k (blockCountList s)) + c" for c
    using kn Suc.prems(2) by (simp add: take_Suc_conv_app_nth)
  show ?case
  proof (cases "exists fs ?name")
    case True
    let ?n = "(getSize fs ?name + BLOCK_SIZE ?s1 - 1) div BLOCK_SIZE ?s1"
    let ?s2 = "?s1\<lparr>fileList := (fileList ?s1)[k := True],
                 blockCountList := (blockCountList ?s1)[k := ?n]\<rparr>"
    from Suc.prems(1) True upt
    have run: "openLoop fs checkOnly createMode [Suc k..<n] ?s2 (tot + ?n) = Inr (s', tot')"
      by (simp add: Let_def split: if_splits)
    have "tot + ?n = sum_list (take (Suc k) (blockCountList ?s2))"
      using take_upd [of ?n] Suc.prems(3) by simp
    with Suc.hyps(1) [OF _ run] Suc.hyps(2) Suc.prems(2) kn show ?thesis by simp
  next
    case False
    let ?s2 = "?s1\<lparr>fileList := (fileList ?s1)[k := True],
                 blockCountList := (blockCountList ?s1)[k := 0]\<rparr>"
    from Suc.prems(1) False upt
    have run: "openLoop fs checkOnly createMode [Suc k..<n] ?s2 tot = Inr (s', tot')"
      by (simp add: Let_def split: if_splits)
    have "tot = sum_list (take (Suc k) (blockCountList ?s2))"
      using take_upd [of 0] Suc.prems(3) by simp
    with Suc.hyps(1) [OF _ run] Suc.hyps(2) Suc.prems(2) kn show ?thesis by simp
  qed
qed

lemma newCheckpointFile_result:
  assumes "newCheckpointFile l1 l2 fs0 e d pg sc st dirs = Inr s0"
  shows "usedChunkInfo s0 = []" and "validChunkInfo s0 = []"
    and "length (blockCountList s0) = splitCount s0"
    and "freeUseBitNum s0 = 0" and "freeBlockSearchCursor s0 = 0"
  using assms
  by (auto simp: newCheckpointFile_def initialMembers_def Let_def BitArray_new_def
      split: if_splits)

text \<open>
  Claim C10, as amended. Take the object as the constructor leaves it and a call of \<^verbatim>\<open>open\<close> that
  returns, and let \<open>N\<close> be the \<^verbatim>\<open>blockNum_\<close> of the result, which is the sum of the
  per-file block counts of the backing files. Then the used and the valid bitmap both
  consist of \<open>N + 2\<close> false bits, \<^verbatim>\<open>freeUseBitNum_\<close> is \<open>N + 2\<close>, the cursor is 0, and the
  returned flag tells whether \<open>N\<close> is 0. So every block, also one that holds data on
  disk, is reported free, and the bitmaps are two bits longer than the block count.
\<close>

theorem open_file_bitmaps:
  assumes "newCheckpointFile l1 l2 fs0 e d pg sc st dirs = Inr s0"
    and "open_file fs checkOnly createMode s0 = Inr (fresh, s)"
  shows "usedChunkInfo s = replicate (blockNum s + 2) False \<and>
         validChunkInfo s = replicate (blockNum s + 2) False \<and>
         freeUseBitNum s = blockNum s + 2 \<and>
         freeBlockSearchCursor s = 0 \<and>
         blockNum s = sum_list (blockCountList s) \<and>
         fresh = (blockNum s = 0)"
proof -
  from assms(2) obtain s1 tot where
    loop: "openLoop fs checkOnly createMode [0..<splitCount s0] s0 0 = Inr (s1, tot)"
    by (auto simp: open_file_def split: sum.splits)
  note c = newCheckpointFile_result [OF assms(1)]
  from openLoop_frame [OF loop] c
  have bm: "usedChunkInfo s1 = []" "validChunkInfo s1 = []"
    "length (blockCountList s1) = splitCount s0" by simp_all
  from openLoop_total [OF loop] c(3) bm(3)
  have tot: "tot = sum_list (blockCountList s1)" by simp
  from assms(2) loop have s: "fresh = (tot = 0)"
    "s = s1\<lparr>blockNum := tot,
          usedChunkInfo := BitArray_set (BitArray_reserve (usedChunkInfo s1) (tot + 1)) (tot + 1) False,
          validChunkInfo := BitArray_set (BitArray_reserve (validChunkInfo s1) (tot + 1)) (tot + 1) False,
          freeUseBitNum := length (BitArray_set (BitArray_reserve (usedChunkInfo s1) (tot + 1)) (tot + 1) False),
          freeBlockSearchCursor := 0\<rparr>"
    by (simp_all add: open_file_def Let_def)
  have "replicate (Suc tot) False @ [False] = replicate (tot + 2) False"
    by (simp add: replicate_append_same)
  with s bm tot show ?thesis
    by (simp add: BitArray_set_def BitArray_reserve_def)
qed


lemma replicate_three: "replicate 3 x = [x, x, x]"
  by (simp add: numeral_3_eq_3)

lemma open_file_dataFs: "open_file dataFs False False freshStore = Inr (False, dataStore)"
  by (simp add: open_file_def dataStore_def freshStore_def initialMembers_def Let_def
      dataFs_def checkDirectory_def splitFileName_def showNat_digit digitChar_def
      gsCpFileBaseName_def gsCpFileSeparator_def gsCpFileExtension_def
      BitArray_new_def BitArray_set_def BitArray_reserve_def BLOCK_SIZE_def
      replicate_three)

theorem open_file_bitmaps_witness:
  "newCheckpointFile 128 1024 dataFs 16 ''/tmp/t1'' 0 0 0 [] = Inr freshStore \<and>
   open_file dataFs False False freshStore = Inr (False, dataStore) \<and>
   blockNum dataStore = 3 \<and>
   usedChunkInfo dataStore = [False, False, False, False, False] \<and>
   validChunkInfo dataStore = [False, False, False, False, False] \<and>
   freeUseBitNum dataStore = 5 \<and>
   freeBlockSearchCursor dataStore = 0"
proof -
  have n: "blockNum dataStore = 3" by (simp add: dataStore_def)
  have r: "replicate 5 False = [False, False, False, False, False]"
    by (simp add: numeral_eq_Suc)
  from open_file_bitmaps [OF newCheckpointFile_freshStore open_file_dataFs]
    newCheckpointFile_freshStore [of 128 1024 dataFs] open_file_dataFs n r
  show ?thesis by simp
qed

text \<open>
  Claim C10 as stated, for every \<^verbatim>\<open>open\<close> that returns, fails: \<^verbatim>\<open>open\<close> does not empty the
  bitmaps of an object that has been in use. On the opened store after four allocations
  (used bitmap: four set bits) a second \<^verbatim>\<open>open\<close> over the empty checkpoint file finds
  \<open>N = 0\<close> blocks, clears bit 1 only, and sets \<^verbatim>\<open>freeUseBitNum_\<close> to the length 4: the
  bitmap has four bits, not two, three of them set.
\<close>

theorem open_file_reopen_counterexample:
  "map_sum id (\<lambda>r. (blockNum (snd r), usedChunkInfo (snd r), freeUseBitNum (snd r)))
     (open_file createdFs False True
        (run 1024 [Allocate, Allocate, Allocate, Allocate] openedStore))
   = Inr (0, [True, False, True, True], 4)"
  by (simp add: allocator_eval open_file_def openedStore_def freshStore_def Let_def
      createdFs_def checkDirectory_def splitFileName_def showNat_digit digitChar_def
      gsCpFileBaseName_def gsCpFileSeparator_def gsCpFileExtension_def
      BitArray_reserve_def BLOCK_SIZE_def)

text \<open>
  The constructed object and the opened object satisfy the allocator's invariant and have
  bitmaps of equal length; each entry of \<^verbatim>\<open>blockCountList_\<close> is the size of its file in
  blocks, rounded up, and 0 for a file that \<^verbatim>\<open>open\<close> had to create.
\<close>

lemma newCheckpointFile_inv:
  assumes "newCheckpointFile l1 l2 fs0 e d pg sc st dirs = Inr s0"
  shows "allocInv s0 \<and> lengthInv s0"
  using newCheckpointFile_result [OF assms]
  by (simp add: allocInv_def lengthInv_def countFree_def)

lemma open_file_inv:
  assumes "newCheckpointFile l1 l2 fs0 e d pg sc st dirs = Inr s0"
    and "open_file fs checkOnly createMode s0 = Inr (fresh, s)"
  shows "allocInv s \<and> lengthInv s"
proof -
  from assms(2) obtain s1 tot where
    loop: "openLoop fs checkOnly createMode [0..<splitCount s0] s0 0 = Inr (s1, tot)"
    by (auto simp: open_file_def split: sum.splits)
  note c = newCheckpointFile_result [OF assms(1)]
  from openLoop_frame [OF loop] c
  have bm: "usedChunkInfo s1 = []" "validChunkInfo s1 = []" by simp_all
  from assms(2) loop have s:
    "s = s1\<lparr>blockNum := tot,
          usedChunkInfo := BitArray_set (BitArray_reserve (usedChunkInfo s1) (tot + 1)) (tot + 1) False,
          validChunkInfo := BitArray_set (BitArray_reserve (validChunkInfo s1) (tot + 1)) (tot + 1) False,
          freeUseBitNum := length (BitArray_set (BitArray_reserve (usedChunkInfo s1) (tot + 1)) (tot + 1) False),
          freeBlockSearchCursor := 0\<rparr>"
    by (simp_all add: open_file_def Let_def)
  have "replicate (Suc tot) False @ [False] = replicate (tot + 2) False"
    by (simp add: replicate_append_same)
  with s bm show ?thesis
    by (simp add: BitArray_set_def BitArray_reserve_def allocInv_def lengthInv_def
        countFree_def)
qed

lemma openLoop_names:
  "openLoop fs checkOnly createMode idxs s tot = Inr (s', tot') \<Longrightarrow>
   splitFileName s' = splitFileName s \<and> BLOCK_SIZE s' = BLOCK_SIZE s"
proof (induction idxs arbitrary: s tot)
  case Nil
  then show ?case by simp
next
  case (Cons i rest)
  let ?name = "splitFileName s i"
  let ?s1 = "s\<lparr>fileNameList := (fileNameList s)[i := ?name]\<rparr>"
  have keep: "splitFileName (?s1\<lparr>fileList := fl, blockCountList := bl\<rparr>) = splitFileName s"
    "BLOCK_SIZE (?s1\<lparr>fileList := fl, blockCountList := bl\<rparr>) = BLOCK_SIZE s" for fl bl
    by (simp_all add: splitFileName_def BLOCK_SIZE_def fun_eq_iff)
  show ?case
  proof (cases "exists fs ?name")
    case True
    let ?n = "(getSize fs ?name + BLOCK_SIZE ?s1 - 1) div BLOCK_SIZE ?s1"
    let ?s2 = "?s1\<lparr>fileList := (fileList ?s1)[i := True],
                 blockCountList := (blockCountList ?s1)[i := ?n]\<rparr>"
    from Cons.prems True
    have "openLoop fs checkOnly createMode rest ?s2 (tot + ?n) = Inr (s', tot')"
      by (simp add: Let_def split: if_splits)
    from Cons.IH [OF this] keep show ?thesis by simp
  next
    case False
    let ?s2 = "?s1\<lparr>fileList := (fileList ?s1)[i := True],
                 blockCountList := (blockCountList ?s1)[i := 0]\<rparr>"
    from Cons.prems False
    have "openLoop fs checkOnly createMode rest ?s2 tot = Inr (s', tot')"
      by (simp add: Let_def split: if_splits)
    from Cons.IH [OF this] keep show ?thesis by simp
  qed
qed

lemma openLoop_other:
  "openLoop fs checkOnly createMode idxs s tot = Inr (s', tot') \<Longrightarrow> i \<notin> set idxs \<Longrightarrow>
   blockCountList s' ! i = blockCountList s ! i"
proof (induction idxs arbitrary: s tot)
  case Nil
  then show ?case by simp
next
  case (Cons j rest)
  let ?name = "splitFileName s j"
  let ?s1 = "s\<lparr>fileNameList := (fileNameList s)[j := ?name]\<rparr>"
  from Cons.prems(2) have ne: "j \<noteq> i" "i \<notin> set rest" by auto
  show ?case
  proof (cases "exists fs ?name")
    case True
    let ?n = "(getSize fs ?name + BLOCK_SIZE ?s1 - 1) div BLOCK_SIZE ?s1"
    let ?s2 = "?s1\<lparr>fileList := (fileList ?s1)[j := True],
                 blockCountList := (blockCountList ?s1)[j := ?n]\<rparr>"
    from Cons.prems True
    have "openLoop fs checkOnly createMode rest ?s2 (tot + ?n) = Inr (s', tot')"
      by (simp add: Let_def split: if_splits)
    from Cons.IH [OF this ne(2)] ne(1) show ?thesis by simp
  next
    case False
    let ?s2 = "?s1\<lparr>fileList := (fileList ?s1)[j := True],
                 blockCountList := (blockCountList ?s1)[j := 0]\<rparr>"
    from Cons.prems False
    have "openLoop fs checkOnly createMode rest ?s2 tot = Inr (s', tot')"
      by (simp add: Let_def split: if_splits)
    from Cons.IH [OF this ne(2)] ne(1) show ?thesis by simp
  qed
qed

lemma openLoop_counts:
  "openLoop fs checkOnly createMode idxs s tot = Inr (s', tot') \<Longrightarrow> distinct idxs \<Longrightarrow>
   i \<in> set idxs \<Longrightarrow> i < length (blockCountList s) \<Longrightarrow>
   blockCountList s' ! i =
     (if exists fs (splitFileName s i)
      then (getSize fs (splitFileName s i) + BLOCK_SIZE s - 1) div BLOCK_SIZE s else 0)"
proof (induction idxs arbitrary: s tot)
  case Nil
  then show ?case by simp
next
  case (Cons j rest)
  let ?name = "splitFileName s j"
  let ?s1 = "s\<lparr>fileNameList := (fileNameList s)[j := ?name]\<rparr>"
  have keep: "splitFileName (?s1\<lparr>fileList := fl, blockCountList := bl\<rparr>) = splitFileName s"
    "BLOCK_SIZE (?s1\<lparr>fileList := fl, blockCountList := bl\<rparr>) = BLOCK_SIZE s" for fl bl
    by (simp_all add: splitFileName_def BLOCK_SIZE_def fun_eq_iff)
  from Cons.prems(2) have d: "j \<notin> set rest" "distinct rest" by simp_all
  show ?case
  proof (cases "exists fs ?name")
    case True
    let ?n = "(getSize fs ?name + BLOCK_SIZE ?s1 - 1) div BLOCK_SIZE ?s1"
    let ?s2 = "?s1\<lparr>fileList := (fileList ?s1)[j := True],
                 blockCountList := (blockCountList ?s1)[j := ?n]\<rparr>"
    from Cons.prems(1) True
    have run: "openLoop fs checkOnly createMode rest ?s2 (tot + ?n) = Inr (s', tot')"
      by (simp add: Let_def split: if_splits)
    show ?thesis
    proof (cases "i = j")
      case True
      with openLoop_other [OF run d(1)] Cons.prems(4) \<open>exists fs ?name\<close> show ?thesis
        by (simp add: BLOCK_SIZE_def)
    next
      case False
      with Cons.prems(3) have "i \<in> set rest" by simp
      from Cons.IH [OF run d(2) this] Cons.prems(4) keep show ?thesis by simp
    qed
  next
    case False
    let ?s2 = "?s1\<lparr>fileList := (fileList ?s1)[j := True],
                 blockCountList := (blockCountList ?s1)[j := 0]\<rparr>"
    from Cons.prems(1) False
    have run: "openLoop fs checkOnly createMode rest ?s2 tot = Inr (s', tot')"
      by (simp add: Let_def split: if_splits)
    show ?thesis
    proof (cases "i = j")
      case True
      with openLoop_other [OF run d(1)] Cons.prems(4) \<open>\<not> exists fs ?name\<close> show ?thesis
        by simp
    next
      case False
      with Cons.prems(3) have "i \<in> set rest" by simp
      from Cons.IH [OF run d(2) this] Cons.prems(4) keep show ?thesis by simp
    qed
  qed
qed

lemma open_file_blockCountList:
  assumes "newCheckpointFile l1 l2 fs0 e d pg sc st dirs = Inr s0"
    and "open_file fs checkOnly createMode s0 = Inr (fresh, s)"
    and "i < splitCount s0"
  shows "blockCountList s ! i =
     (if exists fs (splitFileName s0 i)
      then (getSize fs (splitFileName s0 i) + BLOCK_SIZE s0 - 1) div BLOCK_SIZE s0 else 0)"
proof -
  from assms(2) obtain s1 tot where
    loop: "openLoop fs checkOnly createMode [0..<splitCount s0] s0 0 = Inr (s1, tot)"
    by (auto simp: open_file_def split: sum.splits)
  from assms(2) loop have "blockCountList s = blockCountList s1"
    by (auto simp: open_file_def Let_def)
  with openLoop_counts [OF loop, of i] newCheckpointFile_result(3) [OF assms(1)] assms(3)
  show ?thesis by simp
qed

section \<open>The lengths of the two bitmaps\<close>

lemma allocateBlock_lengthInv:
  assumes "lengthInv s"
  shows "lengthInv (snd (allocateBlock lim s))"
proof (cases rule: allocateBlock_cases [where s = s and lim = lim])
  case (reuse p pos cnt)
  from scanFree_found [OF reuse(2)] assms
  have p: "p < length (usedChunkInfo s)"
    by (auto simp: lengthInv_def)
  with assms show ?thesis
    using allocateBlock_reuse [OF reuse]
    by (simp add: lengthInv_def setUsedBlockInfo_used setUsedBlockInfo_valid
        setUsedBlockInfo_cursor BitArray_set_length)
next
  case append
  from allocateBlock_append [OF this] allocateBlock_cursor [of s lim] assms
  show ?thesis by (simp add: lengthInv_def BitArray_set_length)
qed

lemma writeBlock_frame:
  "writeBlock io sz b s = Inr (n, s') \<Longrightarrow>
   usedChunkInfo s' = usedChunkInfo s \<and> validChunkInfo s' = validChunkInfo s \<and>
   freeBlockSearchCursor s' = freeBlockSearchCursor s"
  by (cases io) (auto simp: writeBlock_def Let_def split: if_splits)

lemma writePartialBlock_frame:
  "writePartialBlock io sz off s = Inr (n, s') \<Longrightarrow>
   usedChunkInfo s' = usedChunkInfo s \<and> validChunkInfo s' = validChunkInfo s \<and>
   freeBlockSearchCursor s' = freeBlockSearchCursor s"
  by (cases io) (auto simp: writePartialBlock_def Let_def split: if_splits)

lemma readBlock_frame:
  "readBlock fs io sz b s = Inr (n, s') \<Longrightarrow>
   usedChunkInfo s' = usedChunkInfo s \<and> validChunkInfo s' = validChunkInfo s \<and>
   freeBlockSearchCursor s' = freeBlockSearchCursor s"
  by (cases io) (auto simp: readBlock_def Let_def split: if_splits)

lemma perform_lengthInv:
  assumes "lengthInv s" and "withinBitmaps x s" and "perform lim x s = Inr s'"
  shows "lengthInv s'"
proof (cases x)
  case OpAllocate
  with assms allocateBlock_lengthInv [of s lim] show ?thesis by auto
next
  case (OpFree b)
  with assms show ?thesis
    by (auto simp: lengthInv_def freeBlock_def setUsedBlockInfo_used setUsedBlockInfo_valid
        setUsedBlockInfo_cursor BitArray_set_length)
next
  case (OpSetUsed b flag)
  with assms show ?thesis
    by (auto simp: lengthInv_def setUsedBlockInfo_used setUsedBlockInfo_valid
        setUsedBlockInfo_cursor BitArray_set_length)
next
  case (OpSetValid b flag)
  with assms show ?thesis
    by (auto simp: lengthInv_def setValidBlockInfo_def BitArray_set_length)
next
  case (OpWriteBlock io sz b)
  with assms(3) obtain n where "writeBlock io sz b s = Inr (n, s')"
    by (cases "writeBlock io sz b s") auto
  from writeBlock_frame [OF this] assms(1) show ?thesis by (simp add: lengthInv_def)
next
  case (OpWritePartialBlock io sz off)
  with assms(3) obtain n where "writePartialBlock io sz off s = Inr (n, s')"
    by (cases "writePartialBlock io sz off s") auto
  from writePartialBlock_frame [OF this] assms(1) show ?thesis by (simp add: lengthInv_def)
next
  case (OpReadBlock fs io sz b)
  with assms(3) obtain n where "readBlock fs io sz b s = Inr (n, s')"
    by (cases "readBlock fs io sz b s") auto
  from readBlock_frame [OF this] assms(1) show ?thesis by (simp add: lengthInv_def)
next
  case (OpTruncate fs)
  with assms(3) have "truncate fs s = Inr s'" by simp
  from truncate_result [OF this] assms(1) show ?thesis by (simp add: lengthInv_def)
qed

lemma performAll_lengthInv:
  "lengthInv s \<Longrightarrow> allWithinBitmaps lim ops s \<Longrightarrow> performAll lim ops s = Inr s' \<Longrightarrow>
   lengthInv s'"
proof (induction ops arbitrary: s)
  case Nil
  then show ?case by simp
next
  case (Cons x xs)
  from Cons.prems(3) obtain s1 where s1: "perform lim x s = Inr s1"
    by (cases "perform lim x s") auto
  with Cons.prems have "lengthInv s1" "allWithinBitmaps lim xs s1" "performAll lim xs s1 = Inr s'"
    by (auto intro: perform_lengthInv)
  with Cons.IH show ?case by blast
qed

text \<open>
  Claim C8, as amended. Start from a state whose bitmaps have the same length and whose
  cursor lies within them (the opened store is one). Any sequence of \<^verbatim>\<open>allocateBlock\<close>,
  \<^verbatim>\<open>writeBlock\<close>, \<^verbatim>\<open>writePartialBlock\<close>, \<^verbatim>\<open>readBlock\<close> and \<^verbatim>\<open>truncate\<close> calls, and of
  \<^verbatim>\<open>freeBlock\<close>, \<^verbatim>\<open>setUsedBlockInfo\<close> and \<^verbatim>\<open>setValidBlockInfo\<close> calls whose block number
  lies within the bitmap, leaves the used and the valid bitmap at the same length.
\<close>

theorem bitmap_lengths_stay_equal:
  assumes "lengthInv s" and "allWithinBitmaps lim ops s" and "performAll lim ops s = Inr s'"
  shows "length (usedChunkInfo s') = length (validChunkInfo s')"
  using performAll_lengthInv [OF assms] by (simp add: lengthInv_def)


theorem bitmap_lengths_stay_equal_witness:
  "lengthInv openedStore \<and>
   allWithinBitmaps 1024
     [OpAllocate, OpAllocate, OpAllocate, OpSetValid 2 True, OpWriteBlock (IoDone 0) 1 2,
      OpFree 0, OpTruncate scenarioFs] openedStore \<and>
   map_sum id (\<lambda>s. (length (usedChunkInfo s), length (validChunkInfo s)))
     (performAll 1024
       [OpAllocate, OpAllocate, OpAllocate, OpSetValid 2 True, OpWriteBlock (IoDone 0) 1 2,
        OpFree 0, OpTruncate scenarioFs] openedStore) = Inr (3, 3)"
proof -
  let ?ops = "[OpAllocate, OpAllocate, OpAllocate, OpSetValid 2 True,
               OpWriteBlock (IoDone 0) 1 2, OpFree 0, OpTruncate scenarioFs]"
  have a: "lengthInv openedStore"
    by (simp add: lengthInv_def openedStore_def)
  have b: "allWithinBitmaps 1024 ?ops openedStore"
    by (simp add: allocator_eval openedStore_def freshStore_def setValidBlockInfo_def
        writeBlock_def calcFileNth_def BLOCK_SIZE_def truncate_def truncateWith_def scenarioFs_def)
  have c: "map_sum id usedChunkInfo (performAll 1024 ?ops openedStore)
             = Inr [False, False, False]"
    by (simp add: allocator_eval openedStore_def freshStore_def setValidBlockInfo_def
        writeBlock_def calcFileNth_def BLOCK_SIZE_def truncate_def truncateWith_def scenarioFs_def
        BitArray_reset_def replicate_three)
  then obtain s' where d: "performAll 1024 ?ops openedStore = Inr s'"
    by (cases "performAll 1024 ?ops openedStore") auto
  from bitmap_lengths_stay_equal [OF a b d] a b c d show ?thesis
    by auto
qed

text \<open>
  Claim C8 as the specification states it fails: \<^verbatim>\<open>setValidBlockInfo(5, true)\<close> on the
  opened store, whose bitmaps hold two bits each, grows the valid bitmap to six bits and
  leaves the used bitmap at two.
\<close>

theorem setValidBlockInfo_counterexample:
  "length (usedChunkInfo openedStore) = length (validChunkInfo openedStore) \<and>
   length (usedChunkInfo (setValidBlockInfo 5 True openedStore)) = 2 \<and>
   length (validChunkInfo (setValidBlockInfo 5 True openedStore)) = 6"
  by (simp add: setValidBlockInfo_def openedStore_def BitArray_set_def)


section \<open>Properties of the hole punching\<close>

lemma punchUnused_all_succeed:
  assumes "\<forall>b \<in> set bs. \<not> BitArray_get (usedChunkInfo s) b \<longrightarrow>
             attached s (calcFileNth s (b * BLOCK_SIZE s)) \<and>
             \<not> fails (punchRequest s (BLOCK_SIZE s) (b * BLOCK_SIZE s))"
  shows "punchUnused fails s bs =
           (map (\<lambda>b. punchRequest s (BLOCK_SIZE s) (b * BLOCK_SIZE s))
              (filter (\<lambda>b. \<not> BitArray_get (usedChunkInfo s) b) bs), None)"
  using assms by (induction bs) (simp_all add: Let_def)

lemma punchRequest_single_file:
  "splitCount s = 1 \<Longrightarrow>
   punchRequest s sz offset = \<lparr>punchFileNth = 0, punchOffset = offset, punchLength = sz\<rparr>"
  by (simp add: punchRequest_def calcFileNth_def calcFileOffset_def)

lemma punchHoleBlock_request:
  "attached s (calcFileNth s offset) \<Longrightarrow> 0 < sz \<Longrightarrow> \<not> fails (punchRequest s sz offset) \<Longrightarrow>
   punchHoleBlock fails sz offset s = ([punchRequest s sz offset], None)"
  by (simp add: punchHoleBlock_def)

text \<open>
  Claim C6. Let every free block from 1 on map to an attached file and let the system
  refuse none of the requests. Then \<^verbatim>\<open>zerofillUnusedBlock\<close> issues, in ascending order of
  \<open>b\<close>, exactly one hole-punch request of length \<^verbatim>\<open>BLOCK_SIZE_\<close> for the logical byte
  offset \<open>b * BLOCK_SIZE\<close> of every block \<open>b\<close> with \<open>1 \<le> b < used.length\<close> whose used
  bit is clear, and no other request; block 0 is never punched. With a single backing
  file the request goes to file 0 at the byte offset \<open>b * BLOCK_SIZE\<close> itself. The
  witness is the scenario: after allocating and writing the blocks 0 to 3 and freeing 1 and
  3, exactly two requests are issued, at the offsets \<open>1 * BLOCK_SIZE\<close> and
  \<open>3 * BLOCK_SIZE\<close>.
\<close>

theorem zerofillUnusedBlock_punches:
  assumes "\<forall>b. 1 \<le> b \<and> b < length (usedChunkInfo s) \<and> \<not> usedChunkInfo s ! b \<longrightarrow>
             attached s (calcFileNth s (b * BLOCK_SIZE s)) \<and>
             \<not> fails (punchRequest s (BLOCK_SIZE s) (b * BLOCK_SIZE s))"
  shows "zerofillUnusedBlock fails s =
           (map (\<lambda>b. punchRequest s (BLOCK_SIZE s) (b * BLOCK_SIZE s))
              (filter (\<lambda>b. \<not> usedChunkInfo s ! b) [1..<length (usedChunkInfo s)]), None) \<and>
         (splitCount s = 1 \<longrightarrow>
            fst (zerofillUnusedBlock fails s) =
              map (\<lambda>b. \<lparr>punchFileNth = 0, punchOffset = b * BLOCK_SIZE s,
                         punchLength = BLOCK_SIZE s\<rparr>)
                (filter (\<lambda>b. \<not> usedChunkInfo s ! b) [1..<length (usedChunkInfo s)]))"
proof -
  have same: "filter (\<lambda>b. \<not> BitArray_get (usedChunkInfo s) b) [1..<length (usedChunkInfo s)]
      = filter (\<lambda>b. \<not> usedChunkInfo s ! b) [1..<length (usedChunkInfo s)]"
    by (rule filter_cong) (simp_all add: BitArray_get_def)
  have "punchUnused fails s [1..<length (usedChunkInfo s)] =
           (map (\<lambda>b. punchRequest s (BLOCK_SIZE s) (b * BLOCK_SIZE s))
              (filter (\<lambda>b. \<not> BitArray_get (usedChunkInfo s) b) [1..<length (usedChunkInfo s)]),
            None)"
    using assms by (intro punchUnused_all_succeed) (auto simp: BitArray_get_def)
  with same have main: "zerofillUnusedBlock fails s =
           (map (\<lambda>b. punchRequest s (BLOCK_SIZE s) (b * BLOCK_SIZE s))
              (filter (\<lambda>b. \<not> usedChunkInfo s ! b) [1..<length (usedChunkInfo s)]), None)"
    by (simp add: zerofillUnusedBlock_def)
  then show ?thesis by (simp add: punchRequest_single_file)
qed

lemma punchStore_reached:
  "performAll 1024
     [OpAllocate, OpAllocate, OpAllocate, OpAllocate,
      OpWriteBlock (IoDone 0) 1 0, OpWriteBlock (IoDone 0) 1 1,
      OpWriteBlock (IoDone 0) 1 2, OpWriteBlock (IoDone 0) 1 3,
      OpFree 1, OpFree 3] openedStore = Inr punchStore"
  by (simp add: allocator_eval openedStore_def freshStore_def punchStore_def
      writeBlock_def calcFileNth_def BLOCK_SIZE_def)

theorem zerofillUnusedBlock_punches_witness:
  "performAll 1024
     [OpAllocate, OpAllocate, OpAllocate, OpAllocate,
      OpWriteBlock (IoDone 0) 1 0, OpWriteBlock (IoDone 0) 1 1,
      OpWriteBlock (IoDone 0) 1 2, OpWriteBlock (IoDone 0) 1 3,
      OpFree 1, OpFree 3] openedStore = Inr punchStore \<and>
   BLOCK_SIZE punchStore = 65536 \<and>
   zerofillUnusedBlock (\<lambda>r. False) punchStore =
     ([\<lparr>punchFileNth = 0, punchOffset = 1 * 65536, punchLength = 65536\<rparr>,
       \<lparr>punchFileNth = 0, punchOffset = 3 * 65536, punchLength = 65536\<rparr>], None)"
proof -
  have a: "\<forall>b. 1 \<le> b \<and> b < length (usedChunkInfo punchStore) \<and> \<not> usedChunkInfo punchStore ! b \<longrightarrow>
             attached punchStore (calcFileNth punchStore (b * BLOCK_SIZE punchStore)) \<and>
             \<not> (\<lambda>r. False) (punchRequest punchStore (BLOCK_SIZE punchStore) (b * BLOCK_SIZE punchStore))"
    by (simp add: punchStore_def openedStore_def freshStore_def initialMembers_def
        attached_def calcFileNth_def)
  have u: "usedChunkInfo punchStore = [True, False, True, False]"
    "splitCount punchStore = 1" "BLOCK_SIZE punchStore = 65536"
    by (simp_all add: punchStore_def openedStore_def freshStore_def initialMembers_def
        BLOCK_SIZE_def)
  have f: "filter (\<lambda>b. \<not> [True, False, True, False] ! b) [1..<4] = [1, 3]"
    by (simp add: upt_conv_Cons)
  from zerofillUnusedBlock_punches [OF a] u f punchStore_reached show ?thesis
    by (simp add: punchRequest_single_file)
qed


section \<open>Properties of the name parser\<close>

lemmas parse_eval = checkFileName_def gsCpFileBaseName_def gsCpFileExtension_def
  seekg_def tellg_def skipws_def readNumber_def extractUInt32_def extractInt32_def
  extractChar_def isspace_def isdigit_def digitVal_def digitsValue_def Let_def

lemma checkFileName_examples:
  "checkFileName ''gs_cp_17_3.dat'' = Some (17, 3) \<and>
   checkFileName ''gs_cp_17.dat'' = None \<and>
   checkFileName ''gs_cp_17_3.dat.bak'' = None"
  by (simp add: parse_eval)

lemma digitChar_cases:
  "d < 10 \<Longrightarrow> d = 0 \<or> d = 1 \<or> d = 2 \<or> d = 3 \<or> d = 4 \<or> d = 5 \<or> d = 6 \<or> d = 7 \<or> d = 8 \<or> d = (9::nat)"
  by arith

lemma digitChar_isdigit: "isdigit (digitChar d)"
proof -
  have "d mod 10 < 10" by simp
  from digitChar_cases [OF this] show ?thesis
    by (auto simp: digitChar_def isdigit_def)
qed

lemma digitVal_digitChar: "digitVal (digitChar d) = d mod 10"
proof -
  have "d mod 10 < 10" by simp
  from digitChar_cases [OF this] show ?thesis
    by (auto simp: digitChar_def digitVal_def)
qed

lemma isdigit_not_space: "isdigit c \<Longrightarrow> \<not> isspace c"
  by (auto simp: isdigit_def isspace_def)

lemma isdigit_not_sign: "isdigit c \<Longrightarrow> c \<noteq> CHR ''-'' \<and> c \<noteq> CHR ''+''"
  by (auto simp: isdigit_def)

lemma showNat_digits: "list_all isdigit (showNat n)"
proof (induction n rule: showNat.induct)
  case (1 n)
  then show ?case
    by (subst showNat.simps) (simp add: digitChar_isdigit)
qed

lemma showNat_nonempty: "showNat n \<noteq> []"
  by (subst showNat.simps) simp

lemma digitsValue_snoc: "digitsValue (ds @ [c]) = digitsValue ds * 10 + digitVal c"
  by (simp add: digitsValue_def)

lemma digitsValue_showNat: "digitsValue (showNat n) = n"
proof (induction n rule: showNat.induct)
  case (1 n)
  show ?case
  proof (cases "n < 10")
    case True
    then show ?thesis
      by (subst showNat.simps) (simp add: digitsValue_def digitVal_digitChar)
  next
    case False
    with "1.IH" have "digitsValue (showNat (n div 10)) = n div 10" by simp
    with False show ?thesis
      by (subst showNat.simps) (simp add: digitsValue_snoc digitVal_digitChar)
  qed
qed

lemma string_rfind_bound:
  "string_rfind s pat = Some i \<Longrightarrow> i + length pat \<le> length s"
proof (induction s arbitrary: i)
  case Nil
  then show ?case by (simp split: if_splits)
next
  case (Cons c cs)
  show ?case
  proof (cases "string_rfind cs pat")
    case None
    with Cons.prems have "take (length pat) (c # cs) = pat" "i = 0"
      by (simp_all split: if_splits)
    then have "min (length (c # cs)) (length pat) = length pat"
      by (metis length_take)
    then have "length pat \<le> length (c # cs)" by arith
    with \<open>i = 0\<close> show ?thesis by simp
  next
    case (Some j)
    with Cons.prems have "i = Suc j" by simp
    with Cons.IH [OF Some] show ?thesis by simp
  qed
qed

lemma string_rfind_self: "string_rfind pat pat = Some 0"
proof (cases pat)
  case Nil
  then show ?thesis by simp
next
  case (Cons c cs)
  have "string_rfind cs (c # cs) = None"
  proof (cases "string_rfind cs (c # cs)")
    case (Some j)
    from string_rfind_bound [OF this] show ?thesis by simp
  qed simp
  with Cons show ?thesis by simp
qed

lemma string_rfind_suffix: "string_rfind (x @ pat) pat = Some (length x)"
  by (induction x) (simp_all add: string_rfind_self)

lemma string_find_prefix: "string_find (pat @ x) pat = Some 0"
proof (cases "pat @ x")
  case Nil
  then show ?thesis by simp
next
  case (Cons a l)
  have "take (length pat) (pat @ x) = pat" by simp
  with Cons show ?thesis by simp
qed

lemma skipws_at_nonspace:
  assumes "content s = pre @ c # post" and "gpos s = length pre" and "\<not> isspace c"
  shows "skipws s = s"
  using assms by (simp add: skipws_def)

lemma readNumber_digits:
  assumes "content s = pre @ ds @ c # post" and "gpos s = length pre"
    and "ds \<noteq> []" and "list_all isdigit ds" and "\<not> isdigit c"
  shows "readNumber s = ((False, ds), s\<lparr>gpos := length pre + length ds\<rparr>)"
proof -
  from assms(3) obtain d ds' where ds: "ds = d # ds'" by (cases ds) auto
  with assms(4) have d: "isdigit d" by simp
  have ws: "skipws s = s"
    using assms(1,2) ds isdigit_not_space [OF d]
    by (intro skipws_at_nonspace [where pre = pre and c = d and post = "ds' @ c # post"]) simp_all
  have rest: "drop (gpos s) (content s) = ds @ c # post"
    using assms(1,2) by simp
  have tw: "takeWhile isdigit (ds @ c # post) = ds"
    using assms(4,5) by (simp add: takeWhile_append2 list_all_iff)
  from isdigit_not_sign [OF d] ws rest tw ds assms(2) show ?thesis
    by (simp add: readNumber_def Let_def)
qed

lemma extractChar_at:
  assumes "content s = pre @ c # post" and "gpos s = length pre" and "\<not> isspace c"
    and "\<not> failbit s"
  shows "extractChar s = (c, s\<lparr>gpos := length pre + 1\<rparr>)"
  using assms skipws_at_nonspace [OF assms(1-3)]
  by (simp add: extractChar_def Let_def)

lemma checkFileName_roundtrip:
  assumes "pg < 2 ^ 32" and "idx < 2 ^ 31"
  shows "checkFileName
           (gsCpFileBaseName @ showNat pg @ gsCpFileSeparator @ showNat idx @ gsCpFileExtension)
         = Some (pg, int idx)"
proof -
  let ?A = "showNat pg" and ?B = "showNat idx"
  define name where "name = gsCpFileBaseName @ ?A @ ''_'' @ ?B @ gsCpFileExtension"
  define pos where "pos = 6 + length ?A + 1 + length ?B"
  have name: "name = ''gs_cp_'' @ ?A @ ''_'' @ ?B @ ''.dat''"
    by (simp add: name_def gsCpFileBaseName_def gsCpFileExtension_def)
  have find: "string_find name gsCpFileBaseName = Some 0"
    unfolding name_def by (rule string_find_prefix)
  have "string_rfind ((gsCpFileBaseName @ ?A @ ''_'' @ ?B) @ gsCpFileExtension)
          gsCpFileExtension = Some (length (gsCpFileBaseName @ ?A @ ''_'' @ ?B))"
    by (rule string_rfind_suffix)
  then have rfind: "string_rfind name gsCpFileExtension = Some pos"
    by (simp add: name_def pos_def gsCpFileBaseName_def)
  have len: "pos + length gsCpFileExtension = length name"
    by (simp add: name pos_def gsCpFileExtension_def)
  define s0 where "s0 = \<lparr>content = name, gpos = 6, failbit = False\<rparr>"
  define s1 where "s1 = s0\<lparr>gpos := 6 + length ?A\<rparr>"
  define s2 where "s2 = s1\<lparr>gpos := 6 + length ?A + 1\<rparr>"
  define s3 where "s3 = s2\<lparr>gpos := pos\<rparr>"
  have seek: "seekg (length gsCpFileBaseName) \<lparr>content = name, gpos = 0, failbit = False\<rparr> = s0"
    by (simp add: seekg_def s0_def name gsCpFileBaseName_def)
  have "readNumber s0 = ((False, ?A), s0\<lparr>gpos := length ''gs_cp_'' + length ?A\<rparr>)"
    by (rule readNumber_digits [where c = "CHR ''_''" and post = "?B @ ''.dat''"])
      (simp_all add: s0_def name showNat_nonempty showNat_digits isdigit_def)
  then have u: "extractUInt32 s0 = (pg, s1)"
    using assms(1)
    by (simp add: extractUInt32_def s1_def s0_def showNat_nonempty digitsValue_showNat)
  have "extractChar s1 = (CHR ''_'', s1\<lparr>gpos := length (''gs_cp_'' @ ?A) + 1\<rparr>)"
    by (rule extractChar_at [where post = "?B @ ''.dat''"])
      (simp_all add: s1_def s0_def name isspace_def)
  then have c: "extractChar s1 = (CHR ''_'', s2)"
    by (simp add: s2_def)
  have "readNumber s2
          = ((False, ?B), s2\<lparr>gpos := length (''gs_cp_'' @ ?A @ ''_'') + length ?B\<rparr>)"
    by (rule readNumber_digits [where c = "CHR ''.''" and post = "''dat''"])
      (simp_all add: s2_def s1_def s0_def name showNat_nonempty showNat_digits isdigit_def)
  then have i: "extractInt32 s2 = (int idx, s3)"
    using assms(2)
    by (simp add: extractInt32_def s3_def s2_def s1_def s0_def pos_def showNat_nonempty
        digitsValue_showNat)
  have fin: "failbit s3 = False" "tellg s3 = Some pos"
    by (simp_all add: tellg_def s3_def s2_def s1_def s0_def)
  have "checkFileName name = Some (pg, int idx)"
    using find rfind len seek u c i fin
    by (simp add: checkFileName_def Let_def)
  then show ?thesis
    by (simp add: name_def gsCpFileSeparator_def)
qed

text \<open>
  Claim C9, evaluated on the code. The names the constructor and \<^verbatim>\<open>open\<close> build parse back
  to their two numbers (\<open>checkFileName_roundtrip\<close>) and the three names of the
  specification's scenario are treated as it says (\<open>checkFileName_examples\<close>). But the
  extraction \<^verbatim>\<open>iss >> num1\<close> skips white space: the name \<^verbatim>\<open>gs_cp_ 17_3.dat\<close>, with a
  blank before the partition group number, is not of the form
  \<^verbatim>\<open>gs_cp_<uint>_<int>.dat\<close> and is accepted with the result (17, 3).
\<close>

theorem checkFileName_accepts_padded_name:
  "checkFileName ''gs_cp_ 17_3.dat'' = Some (17, 3)"
  by (simp add: parse_eval)

end
